theory Spec2Isabelle
  imports Main "HOL-Library.Multiset"
begin

text \<open>
  A model of the board state engine of the Kanban board component: the entity store and
  the move resolver of \<^verbatim>\<open>useKanbanState\<close>, the drag state machine of
  \<^verbatim>\<open>useKanbanDrag\<close>, and the wiring of the two in the board, column and card components.
\<close>

section \<open>Data model (src/types/kanban.ts)\<close>

text \<open>
  \<^verbatim>\<open>KanbanId = string | number\<close>. Numbers are restricted to integers here; the
  strict equality \<^verbatim>\<open>===\<close> of two ids is then equality of the datatype (a string
  never equals a number).
\<close>

datatype KanbanId = IdStr string | IdNum int

text \<open>
  A position that holds an id, \<^verbatim>\<open>undefined\<close> or \<^verbatim>\<open>null\<close>: the optional
  \<^verbatim>\<open>swimlaneId\<close> of a card and of a move event, and the nullable fields of the drag
  state. \<^verbatim>\<open>undefined === null\<close> is false, as the constructors differ.
\<close>

datatype OptId = Undefined | Null | Id KanbanId

text \<open>JavaScript truthiness of such a value: \<^verbatim>\<open>0\<close> and \<^verbatim>\<open>""\<close> are falsy.\<close>

fun truthy :: "OptId \<Rightarrow> bool" where
  "truthy Undefined = False"
| "truthy Null = False"
| "truthy (Id (IdStr s)) = (s \<noteq> [])"
| "truthy (Id (IdNum n)) = (n \<noteq> 0)"

text \<open>
  The fields of a card and of a column that the state and drag composables read. An
  optional boolean is \<open>None\<close> when the property is absent. The display fields
  (description, tags, colour, ...) are read by no function modelled here. A field has the
  name it has in the source after a prefix for its record; the field \<^verbatim>\<open>order\<close> is
  \<open>card_ord\<close>, \<open>col_ord\<close> and \<open>sw_ord\<close>. Orders and limits are integers.
\<close>

record KanbanCard =
  card_id :: KanbanId
  card_columnId :: KanbanId
  card_title :: string
  card_ord :: int
  card_swimlaneId :: OptId
  card_draggable :: "bool option"

record KanbanColumn =
  col_id :: KanbanId
  col_title :: string
  col_ord :: int
  col_wipLimit :: "int option"
  col_draggable :: "bool option"
  col_acceptsCards :: "bool option"

text \<open>
  Card objects live in a store and arrays hold references to them: \<^verbatim>\<open>[...cards]\<close>
  copies the array, not the objects, so an assignment \<^verbatim>\<open>card.order = idx\<close> is seen
  through every array that holds the reference. A reference is an index into the store;
  a new object is allocated at the end.
\<close>

type_synonym ref = nat
type_synonym heap = "KanbanCard list"

record CardMoveEvent =
  ev_card :: ref
  ev_fromColumnId :: KanbanId
  ev_toColumnId :: KanbanId
  ev_fromIndex :: int
  ev_toIndex :: int
  ev_fromSwimlaneId :: OptId
  ev_toSwimlaneId :: OptId

record ColumnMoveEvent =
  cev_column :: KanbanColumn
  cev_fromIndex :: int
  cev_toIndex :: int

section \<open>Array primitives\<close>

text \<open>\<^verbatim>\<open>Array.prototype.findIndex\<close>; the result \<^verbatim>\<open>-1\<close> is \<open>None\<close>.\<close>

fun findIndex :: "('a \<Rightarrow> bool) \<Rightarrow> 'a list \<Rightarrow> nat option" where
  "findIndex p [] = None"
| "findIndex p (x # xs) =
     (if p x then Some 0 else (case findIndex p xs of None \<Rightarrow> None | Some i \<Rightarrow> Some (Suc i)))"

text \<open>\<^verbatim>\<open>xs.splice(i, 1)\<close>: the array without its element at index \<open>i\<close>.\<close>

definition splice_remove :: "'a list \<Rightarrow> nat \<Rightarrow> 'a list" where
  "splice_remove xs i = take i xs @ drop (Suc i) xs"

text \<open>
  \<^verbatim>\<open>xs.splice(start, 0, item)\<close>: a negative start counts from the end and stops at
  0, a start beyond the length is the length.
\<close>

definition splice_insert :: "'a list \<Rightarrow> int \<Rightarrow> 'a \<Rightarrow> 'a list" where
  "splice_insert xs start item =
     (let n = int (length xs);
          k = (if start < 0 then max (n + start) 0 else min start n)
      in take (nat k) xs @ [item] @ drop (nat k) xs)"

text \<open>
  \<^verbatim>\<open>arr.forEach((card, idx) => { card.order = idx; })\<close>, counting from \<open>idx\<close>: each
  assignment goes to the store.
\<close>

fun renumber :: "heap \<Rightarrow> ref list \<Rightarrow> nat \<Rightarrow> heap" where
  "renumber h [] idx = h"
| "renumber h (a # as) idx =
     renumber (h[a := (h ! a)\<lparr>card_ord := int idx\<rparr>]) as (Suc idx)"

section \<open>Entity store (src/composables/useKanbanState.ts)\<close>

definition getCardsForColumn :: "heap \<Rightarrow> ref list \<Rightarrow> KanbanId \<Rightarrow> OptId \<Rightarrow> ref list" where
  "getCardsForColumn h currentCards columnId swimlaneId =
     sort_key (\<lambda>a. card_ord (h ! a))
       (filter (\<lambda>a. card_columnId (h ! a) = columnId \<and>
                     (if swimlaneId \<noteq> Undefined then card_swimlaneId (h ! a) = swimlaneId
                      else True))
          currentCards)"

definition getCardCount :: "heap \<Rightarrow> ref list \<Rightarrow> KanbanId \<Rightarrow> OptId \<Rightarrow> nat" where
  "getCardCount h currentCards columnId swimlaneId =
     length (getCardsForColumn h currentCards columnId swimlaneId)"

definition getColumnById :: "KanbanColumn list \<Rightarrow> KanbanId \<Rightarrow> KanbanColumn option" where
  "getColumnById currentColumns columnId = find (\<lambda>c. col_id c = columnId) currentColumns"

definition getCardById :: "heap \<Rightarrow> ref list \<Rightarrow> KanbanId \<Rightarrow> ref option" where
  "getCardById h currentCards cardId = find (\<lambda>a. card_id (h ! a) = cardId) currentCards"

text \<open>
  \<^verbatim>\<open>if (!column || !column.wipLimit) return false\<close>: a limit that is absent or 0 is
  falsy. The count is taken with no swimlane.
\<close>

definition isColumnOverLimit ::
  "KanbanColumn list \<Rightarrow> heap \<Rightarrow> ref list \<Rightarrow> KanbanId \<Rightarrow> bool" where
  "isColumnOverLimit currentColumns h currentCards columnId =
     (case find (\<lambda>c. col_id c = columnId) currentColumns of
        None \<Rightarrow> False
      | Some column \<Rightarrow>
          (case col_wipLimit column of
             None \<Rightarrow> False
           | Some w \<Rightarrow>
               if w = 0 then False
               else w < int (getCardCount h currentCards columnId Undefined)))"

section \<open>Move resolver\<close>

text \<open>
  The test of the filters of \<open>moveCard\<close>:
  \<^verbatim>\<open>c.columnId === columnId && c.swimlaneId === swimlaneId\<close>.
\<close>

definition inGroup :: "heap \<Rightarrow> KanbanId \<Rightarrow> OptId \<Rightarrow> ref \<Rightarrow> bool" where
  "inGroup h columnId swimlaneId a =
     (card_columnId (h ! a) = columnId \<and> card_swimlaneId (h ! a) = swimlaneId)"

text \<open>
  \<open>moveCard\<close> returns the store after its assignments and the array it returns. The
  updated card is a new object (a spread copy of the card found); the other cards of the
  source and of the target group are the objects of the input array.
\<close>

definition moveCard :: "heap \<Rightarrow> ref list \<Rightarrow> CardMoveEvent \<Rightarrow> heap \<times> ref list" where
  "moveCard h currentCards event =
     (let cards = currentCards in
      case findIndex (\<lambda>c. card_id (h ! c) = card_id (h ! ev_card event)) cards of
        None \<Rightarrow> (h, cards)
      | Some cardIndex \<Rightarrow>
          let updatedCard = length h;
              h1 = h @ [(h ! (cards ! cardIndex))
                          \<lparr>card_columnId := ev_toColumnId event,
                           card_ord := ev_toIndex event,
                           card_swimlaneId := ev_toSwimlaneId event\<rparr>];
              cards1 = splice_remove cards cardIndex;
              h2 = renumber h1
                     (filter (inGroup h1 (ev_fromColumnId event) (ev_fromSwimlaneId event)) cards1) 0;
              targetCards =
                splice_insert
                  (filter (inGroup h2 (ev_toColumnId event) (ev_toSwimlaneId event)) cards1)
                  (ev_toIndex event) updatedCard;
              h3 = renumber h2 targetCards 0;
              otherCards =
                filter (\<lambda>c. \<not> inGroup h3 (ev_toColumnId event) (ev_toSwimlaneId event) c \<and>
                             \<not> inGroup h3 (ev_fromColumnId event) (ev_fromSwimlaneId event) c)
                  cards1
          in (h3, otherCards @ targetCards @
                  filter (inGroup h3 (ev_fromColumnId event) (ev_fromSwimlaneId event)) cards1))"

text \<open>
  \<open>moveColumn\<close> builds every column of its result anew
  (\<^verbatim>\<open>columns.map((col, idx) => ({ ...col, order: idx }))\<close>), so it needs no store.
\<close>

definition moveColumn :: "KanbanColumn list \<Rightarrow> ColumnMoveEvent \<Rightarrow> KanbanColumn list" where
  "moveColumn currentColumns event =
     (let columns = currentColumns in
      case findIndex (\<lambda>c. col_id c = col_id (cev_column event)) columns of
        None \<Rightarrow> columns
      | Some columnIndex \<Rightarrow>
          let movedColumn = columns ! columnIndex;
              columns1 = splice_remove columns columnIndex;
              columns2 = splice_insert columns1 (cev_toIndex event) movedColumn
          in map (\<lambda>(idx, col). col\<lparr>col_ord := int idx\<rparr>) (enumerate 0 columns2))"

section \<open>Drag state machine (src/composables/useKanbanDrag.ts)\<close>

datatype DragType = CardDrag | ColumnDrag

record DragState =
  isDragging :: bool
  dragType :: "DragType option"
  draggedId :: OptId
  sourceColumnId :: OptId
  sourceSwimlaneId :: OptId
  dropColumnId :: OptId
  dropSwimlaneId :: OptId

text \<open>
  The callbacks a handler invokes, in order: \<^verbatim>\<open>onDragStart({type, id, sourceColumnId})\<close>,
  \<^verbatim>\<open>onDragEnd({type, id, success})\<close> and \<^verbatim>\<open>onCardMoved(moveEvent)\<close>. The effects of a
  handler on the DOM (CSS classes, \<^verbatim>\<open>dataTransfer\<close>, \<^verbatim>\<open>preventDefault\<close>) are left out.
\<close>

datatype DragCallback =
    OnDragStart DragType KanbanId OptId
  | OnDragEnd DragType KanbanId bool
  | OnCardMoved CardMoveEvent

record UseKanbanDragOptions =
  enableDragDrop :: "bool option"
  enableColumnDrag :: "bool option"

definition isDragEnabled :: "UseKanbanDragOptions \<Rightarrow> bool" where
  "isDragEnabled options = (enableDragDrop options \<noteq> Some False)"

definition isColumnDragEnabled :: "UseKanbanDragOptions \<Rightarrow> bool" where
  "isColumnDragEnabled options = (enableColumnDrag options \<noteq> Some False)"

definition resetDragState :: DragState where
  "resetDragState =
     \<lparr>isDragging = False, dragType = None, draggedId = Null, sourceColumnId = Null,
      sourceSwimlaneId = Null, dropColumnId = Null, dropSwimlaneId = Null\<rparr>"

text \<open>\<^verbatim>\<open>x || null\<close> for an optional id.\<close>

definition orNull :: "OptId \<Rightarrow> OptId" where
  "orNull x = (if truthy x then x else Null)"

definition startCardDrag ::
  "UseKanbanDragOptions \<Rightarrow> KanbanCard \<Rightarrow> DragState \<Rightarrow> DragState \<times> DragCallback list" where
  "startCardDrag options kcard st =
     (if \<not> isDragEnabled options then (st, [])
      else if card_draggable kcard = Some False then (st, [])
      else
        (\<lparr>isDragging = True, dragType = Some CardDrag, draggedId = Id (card_id kcard),
          sourceColumnId = Id (card_columnId kcard),
          sourceSwimlaneId = orNull (card_swimlaneId kcard),
          dropColumnId = Null, dropSwimlaneId = Null\<rparr>,
         [OnDragStart CardDrag (card_id kcard) (Id (card_columnId kcard))]))"

definition startColumnDrag ::
  "UseKanbanDragOptions \<Rightarrow> KanbanColumn \<Rightarrow> DragState \<Rightarrow> DragState \<times> DragCallback list" where
  "startColumnDrag options column st =
     (if \<not> isColumnDragEnabled options then (st, [])
      else if col_draggable column = Some False then (st, [])
      else
        (\<lparr>isDragging = True, dragType = Some ColumnDrag, draggedId = Id (col_id column),
          sourceColumnId = Null, sourceSwimlaneId = Null,
          dropColumnId = Null, dropSwimlaneId = Null\<rparr>,
         [OnDragStart ColumnDrag (col_id column) Undefined]))"

definition handleDragOver ::
  "UseKanbanDragOptions \<Rightarrow> DragState \<Rightarrow> KanbanId \<Rightarrow> OptId \<Rightarrow> DragState" where
  "handleDragOver options st columnId swimlaneId =
     (if \<not> isDragEnabled options then st
      else if \<not> isDragging st then st
      else st\<lparr>dropColumnId := Id columnId, dropSwimlaneId := orNull swimlaneId\<rparr>)"

text \<open>
  \<open>handleDrop\<close> reads the dragged card through the two accessors it is given; they
  return references, read in the store \<open>h\<close>. Every early return resets the drag state and
  invokes no callback.
\<close>

definition handleDrop ::
  "UseKanbanDragOptions \<Rightarrow> heap \<Rightarrow> DragState \<Rightarrow> KanbanId \<Rightarrow> OptId \<Rightarrow>
   (KanbanId \<Rightarrow> ref option) \<Rightarrow> (KanbanId \<Rightarrow> OptId \<Rightarrow> ref list) \<Rightarrow>
   DragState \<times> DragCallback list" where
  "handleDrop options h st columnId swimlaneId getCard getCardsInColumn =
     (if \<not> isDragEnabled options then (resetDragState, [])
      else if dragType st \<noteq> Some CardDrag then (resetDragState, [])
      else if \<not> truthy (draggedId st) then (resetDragState, [])
      else
        (case draggedId st of
           Id dragged \<Rightarrow>
             (case getCard dragged of
                None \<Rightarrow> (resetDragState, [])
              | Some kcard \<Rightarrow>
                  let fromColumnId = sourceColumnId st;
                      fromSwimlaneId = sourceSwimlaneId st
                  in if \<not> truthy fromColumnId then (resetDragState, [])
                     else
                       (case fromColumnId of
                          Id fromColumn \<Rightarrow>
                            let cardsInColumn = getCardsInColumn columnId swimlaneId;
                                toIndex =
                                  (if columnId = fromColumn \<and> swimlaneId = fromSwimlaneId
                                   then (case findIndex (\<lambda>c. card_id (h ! c) = dragged) cardsInColumn of
                                           Some fromIndex \<Rightarrow> int fromIndex
                                         | None \<Rightarrow> int (length cardsInColumn))
                                   else int (length cardsInColumn));
                                actuallyMoved =
                                  (if columnId \<noteq> fromColumn then True
                                   else if swimlaneId \<noteq> fromSwimlaneId then True
                                   else toIndex \<noteq> card_ord (h ! kcard))
                            in (resetDragState,
                                (if actuallyMoved
                                 then [OnCardMoved
                                         \<lparr>ev_card = kcard, ev_fromColumnId = fromColumn,
                                          ev_toColumnId = columnId,
                                          ev_fromIndex = card_ord (h ! kcard),
                                          ev_toIndex = toIndex,
                                          ev_fromSwimlaneId = fromSwimlaneId,
                                          ev_toSwimlaneId = swimlaneId\<rparr>]
                                 else []) @
                                [OnDragEnd CardDrag dragged True])
                        | _ \<Rightarrow> (resetDragState, [])))
         | _ \<Rightarrow> (resetDragState, [])))"

text \<open>\<^verbatim>\<open>if (draggedId && dragType)\<close>: the drag-end callback needs a truthy id.\<close>

definition handleDragEnd :: "DragState \<Rightarrow> DragState \<times> DragCallback list" where
  "handleDragEnd st =
     (resetDragState,
      (if truthy (draggedId st)
       then (case (draggedId st, dragType st) of
               (Id dragged, Some ty) \<Rightarrow> [OnDragEnd ty dragged False]
             | _ \<Rightarrow> [])
       else []))"

section \<open>Components (src/components)\<close>

record KanbanSwimlane =
  sw_id :: KanbanId
  sw_title :: string
  sw_ord :: int

record KanbanBoardOptions =
  opt_enableDragDrop :: "bool option"
  opt_enableColumnDrag :: "bool option"
  opt_enableSwimlanes :: "bool option"

text \<open>
  The board is controlled by its props: the store of card objects, the three collections
  and the options. Its only state of its own is the drag state. What it emits to the host
  are the events of its \<^verbatim>\<open>Emits\<close> interface (the click and update events of a single
  card or column are emitted by no handler modelled here).
\<close>

record Board =
  b_heap :: heap
  b_columns :: "KanbanColumn list"
  b_cards :: "ref list"
  b_swimlanes :: "KanbanSwimlane list"
  b_options :: KanbanBoardOptions
  b_dragState :: DragState

datatype BoardEmit =
    UpdateColumns "KanbanColumn list"
  | UpdateCards "ref list"
  | UpdateSwimlanes "KanbanSwimlane list"
  | CardMoved CardMoveEvent
  | ColumnMoved ColumnMoveEvent
  | BoardChange "KanbanColumn list" "ref list" "KanbanSwimlane list option"
  | DragStart DragType KanbanId OptId
  | DragEnd DragType KanbanId bool

text \<open>
  The options the board hands to the drag composable:
  \<^verbatim>\<open>computed(() => optionsRef.value.enableDragDrop !== false)\<close>.
\<close>

definition dragOptions :: "Board \<Rightarrow> UseKanbanDragOptions" where
  "dragOptions b =
     \<lparr>enableDragDrop = Some (opt_enableDragDrop (b_options b) \<noteq> Some False),
      enableColumnDrag = Some (opt_enableColumnDrag (b_options b) \<noteq> Some False)\<rparr>"

text \<open>
  \<^verbatim>\<open>boardOptions.enableSwimlanes && state.effectiveSwimlanes.value.length > 0\<close>: the
  effective swimlanes are the given ones when there are any, and otherwise one for each
  distinct \<^verbatim>\<open>swimlaneId\<close> of a card that is not \<^verbatim>\<open>undefined\<close>; that list is not empty
  exactly when some card has one.
\<close>

definition swimlanesEnabled :: "Board \<Rightarrow> heap \<Rightarrow> bool" where
  "swimlanesEnabled b h =
     (opt_enableSwimlanes (b_options b) = Some True \<and>
      (b_swimlanes b \<noteq> [] \<or>
       list_ex (\<lambda>c. card_swimlaneId (h ! c) \<noteq> Undefined) (b_cards b)))"

definition emitBoardChange :: "Board \<Rightarrow> heap \<Rightarrow> ref list \<Rightarrow> BoardEmit" where
  "emitBoardChange b h updatedCards =
     BoardChange (b_columns b) updatedCards
       (if swimlanesEnabled b h then Some (b_swimlanes b) else None)"

text \<open>
  The three callbacks the board gives to the drag composable. \<open>onCardMoved\<close> runs the
  resolver on the current cards, then emits \<^verbatim>\<open>update:cards\<close>, \<^verbatim>\<open>card-moved\<close> and
  \<^verbatim>\<open>board-change\<close>. A callback returns the store and what it emitted.
\<close>

fun boardCallback :: "Board \<Rightarrow> heap \<Rightarrow> DragCallback \<Rightarrow> heap \<times> BoardEmit list" where
  "boardCallback b h (OnDragStart ty i src) = (h, [DragStart ty i src])"
| "boardCallback b h (OnDragEnd ty i success) = (h, [DragEnd ty i success])"
| "boardCallback b h (OnCardMoved event) =
     (let (h', updatedCards) = moveCard h (b_cards b) event
      in (h', [UpdateCards updatedCards, CardMoved event, emitBoardChange b h' updatedCards]))"

fun boardCallbacks :: "Board \<Rightarrow> heap \<Rightarrow> DragCallback list \<Rightarrow> heap \<times> BoardEmit list" where
  "boardCallbacks b h [] = (h, [])"
| "boardCallbacks b h (cb # cbs) =
     (let (h1, es1) = boardCallback b h cb;
          (h2, es2) = boardCallbacks b h1 cbs
      in (h2, es1 @ es2))"

text \<open>
  The handlers of the board. In the source a callback runs inside the drag handler, before
  the handler resets the drag state; no callback reads the drag state, so running them on
  the handler's result is the same.
\<close>

definition handleCardDragStart :: "Board \<Rightarrow> ref \<Rightarrow> Board \<times> BoardEmit list" where
  "handleCardDragStart b kcard =
     (let (st, cbs) = startCardDrag (dragOptions b) (b_heap b ! kcard) (b_dragState b);
          (h, es) = boardCallbacks b (b_heap b) cbs
      in (b\<lparr>b_heap := h, b_dragState := st\<rparr>, es))"

definition handleCardDragEnd :: "Board \<Rightarrow> Board \<times> BoardEmit list" where
  "handleCardDragEnd b =
     (let (st, cbs) = handleDragEnd (b_dragState b);
          (h, es) = boardCallbacks b (b_heap b) cbs
      in (b\<lparr>b_heap := h, b_dragState := st\<rparr>, es))"

definition handleColumnDragOver :: "Board \<Rightarrow> KanbanId \<Rightarrow> OptId \<Rightarrow> Board \<times> BoardEmit list" where
  "handleColumnDragOver b columnId swimlaneId =
     (b\<lparr>b_dragState := handleDragOver (dragOptions b) (b_dragState b) columnId swimlaneId\<rparr>, [])"

definition handleColumnDrop :: "Board \<Rightarrow> KanbanId \<Rightarrow> OptId \<Rightarrow> Board \<times> BoardEmit list" where
  "handleColumnDrop b columnId swimlaneId =
     (let (st, cbs) =
            handleDrop (dragOptions b) (b_heap b) (b_dragState b) columnId swimlaneId
              (getCardById (b_heap b) (b_cards b))
              (\<lambda>colId swimId. getCardsForColumn (b_heap b) (b_cards b) colId swimId);
          (h, es) = boardCallbacks b (b_heap b) cbs
      in (b\<lparr>b_heap := h, b_dragState := st\<rparr>, es))"

text \<open>
  The card and column components stand between the DOM events and the board: a card
  passes \<^verbatim>\<open>dragstart\<close> on only when it can be dragged, a column passes \<^verbatim>\<open>dragover\<close>
  and \<^verbatim>\<open>drop\<close> on only when it accepts cards (\<^verbatim>\<open>acceptsCards !== false\<close>).
\<close>

definition canDrag :: "Board \<Rightarrow> KanbanCard \<Rightarrow> bool" where
  "canDrag b kcard =
     ((case opt_enableDragDrop (b_options b) of None \<Rightarrow> True | Some v \<Rightarrow> v) \<and>
      card_draggable kcard \<noteq> Some False)"

definition canAcceptCards :: "KanbanColumn \<Rightarrow> bool" where
  "canAcceptCards column = (col_acceptsCards column \<noteq> Some False)"

datatype DomEvent =
    CardDragStart ref
  | ColumnDragOver KanbanColumn OptId
  | ColumnDrop KanbanColumn OptId
  | CardDragEnd

fun dispatch :: "Board \<Rightarrow> DomEvent \<Rightarrow> Board \<times> BoardEmit list" where
  "dispatch b (CardDragStart kcard) =
     (if \<not> canDrag b (b_heap b ! kcard) then (b, []) else handleCardDragStart b kcard)"
| "dispatch b (ColumnDragOver column swimlaneId) =
     (if \<not> canAcceptCards column then (b, [])
      else handleColumnDragOver b (col_id column) swimlaneId)"
| "dispatch b (ColumnDrop column swimlaneId) =
     (if \<not> canAcceptCards column then (b, [])
      else handleColumnDrop b (col_id column) swimlaneId)"
| "dispatch b CardDragEnd = handleCardDragEnd b"

text \<open>A gesture is a sequence of DOM events, handled in arrival order.\<close>

fun run :: "Board \<Rightarrow> DomEvent list \<Rightarrow> Board \<times> BoardEmit list" where
  "run b [] = (b, [])"
| "run b (e # es) =
     (let (b1, out1) = dispatch b e;
          (b2, out2) = run b1 es
      in (b2, out1 @ out2))"

section \<open>Order density\<close>

text \<open>
  The orders of the cards of a group, in the sequence of the array, and the density of a
  group: its orders are the numbers 0 to \<open>n - 1\<close>, each once.
\<close>

definition groupOrders :: "heap \<Rightarrow> ref list \<Rightarrow> KanbanId \<Rightarrow> OptId \<Rightarrow> int list" where
  "groupOrders h cards columnId swimlaneId =
     map (\<lambda>a. card_ord (h ! a)) (filter (inGroup h columnId swimlaneId) cards)"

definition denseGroup :: "heap \<Rightarrow> ref list \<Rightarrow> KanbanId \<Rightarrow> OptId \<Rightarrow> bool" where
  "denseGroup h cards columnId swimlaneId \<longleftrightarrow>
     mset (groupOrders h cards columnId swimlaneId) =
     mset (map int [0..<length (groupOrders h cards columnId swimlaneId)])"

section \<open>Example boards\<close>

definition colA :: KanbanId where "colA = IdStr ''A''"
definition colB :: KanbanId where "colB = IdStr ''B''"

definition mkCard :: "KanbanId \<Rightarrow> KanbanId \<Rightarrow> int \<Rightarrow> KanbanCard" where
  "mkCard i c ord =
     \<lparr>card_id = i, card_columnId = c, card_title = [], card_ord = ord,
      card_swimlaneId = Undefined, card_draggable = None\<rparr>"

definition mkColumn :: "KanbanId \<Rightarrow> int \<Rightarrow> KanbanColumn" where
  "mkColumn i ord =
     \<lparr>col_id = i, col_title = [], col_ord = ord, col_wipLimit = None,
      col_draggable = None, col_acceptsCards = None\<rparr>"

definition noOptions :: KanbanBoardOptions where
  "noOptions =
     \<lparr>opt_enableDragDrop = None, opt_enableColumnDrag = None, opt_enableSwimlanes = None\<rparr>"

definition noDragOptions :: UseKanbanDragOptions where
  "noDragOptions = \<lparr>enableDragDrop = None, enableColumnDrag = None\<rparr>"

text \<open>
  The board of the concrete scenario: columns \<open>A\<close> (order 0) and \<open>B\<close> (order 1), cards
  \<open>c1\<close> (A, 0), \<open>c2\<close> (A, 1) and \<open>c3\<close> (B, 0), no swimlanes, default options.
\<close>

definition c1 :: KanbanCard where "c1 = mkCard (IdStr ''c1'') colA 0"
definition c2 :: KanbanCard where "c2 = mkCard (IdStr ''c2'') colA 1"
definition c3 :: KanbanCard where "c3 = mkCard (IdStr ''c3'') colB 0"

definition columnA :: KanbanColumn where "columnA = mkColumn colA 0"
definition columnB :: KanbanColumn where "columnB = mkColumn colB 1"

definition scenarioHeap :: heap where "scenarioHeap = [c1, c2, c3]"

definition scenarioBoard :: Board where
  "scenarioBoard =
     \<lparr>b_heap = scenarioHeap, b_columns = [columnA, columnB], b_cards = [0, 1, 2],
      b_swimlanes = [], b_options = noOptions, b_dragState = resetDragState\<rparr>"

text \<open>The move of the scenario: \<open>c1\<close> from \<open>A\<close>/0 to \<open>B\<close>/0.\<close>

definition scenarioMove :: CardMoveEvent where
  "scenarioMove =
     \<lparr>ev_card = 0, ev_fromColumnId = colA, ev_toColumnId = colB, ev_fromIndex = 0,
      ev_toIndex = 0, ev_fromSwimlaneId = Undefined, ev_toSwimlaneId = Undefined\<rparr>"

text \<open>The drag state while \<open>c1\<close> is dragged, and the scenario board in that state.\<close>

definition draggingC1 :: DragState where
  "draggingC1 =
     \<lparr>isDragging = True, dragType = Some CardDrag, draggedId = Id (IdStr ''c1''),
      sourceColumnId = Id colA, sourceSwimlaneId = Null,
      dropColumnId = Null, dropSwimlaneId = Null\<rparr>"

definition draggingBoard :: Board where
  "draggingBoard = scenarioBoard\<lparr>b_dragState := draggingC1\<rparr>"

text \<open>The move event that dropping \<open>c1\<close> on column \<open>B\<close> produces.\<close>

definition dropMove :: CardMoveEvent where
  "dropMove =
     \<lparr>ev_card = 0, ev_fromColumnId = colA, ev_toColumnId = colB, ev_fromIndex = 0,
      ev_toIndex = 1, ev_fromSwimlaneId = Null, ev_toSwimlaneId = Undefined\<rparr>"

text \<open>A board with one column \<open>A\<close> that holds \<open>c1\<close> (order 0) and \<open>c2\<close> (order 1).\<close>

definition pairHeap :: heap where "pairHeap = [c1, c2]"

definition pairBoard :: Board where
  "pairBoard =
     \<lparr>b_heap = pairHeap, b_columns = [columnA], b_cards = [0, 1],
      b_swimlanes = [], b_options = noOptions, b_dragState = resetDragState\<rparr>"

text \<open>Moves of \<open>c1\<close> within its own group: to index 1, and to its own index 0.\<close>

definition sameGroupMove :: CardMoveEvent where
  "sameGroupMove =
     \<lparr>ev_card = 0, ev_fromColumnId = colA, ev_toColumnId = colA, ev_fromIndex = 0,
      ev_toIndex = 1, ev_fromSwimlaneId = Undefined, ev_toSwimlaneId = Undefined\<rparr>"

definition selfMove :: CardMoveEvent where
  "selfMove =
     \<lparr>ev_card = 0, ev_fromColumnId = colA, ev_toColumnId = colA, ev_fromIndex = 0,
      ev_toIndex = 0, ev_fromSwimlaneId = Undefined, ev_toSwimlaneId = Undefined\<rparr>"

text \<open>
  The scenario board while a card with the id \<open>gone\<close> is dragged: its object is still
  in the store (reference 3), but the card collection no longer holds it. And a move event
  for that card.
\<close>

definition staleBoard :: Board where
  "staleBoard =
     scenarioBoard
       \<lparr>b_heap := scenarioHeap @ [mkCard (IdStr ''gone'') colA 2],
        b_dragState := draggingC1\<lparr>draggedId := Id (IdStr ''gone'')\<rparr>\<rparr>"

definition staleMove :: CardMoveEvent where
  "staleMove =
     \<lparr>ev_card = 3, ev_fromColumnId = colA, ev_toColumnId = colB, ev_fromIndex = 2,
      ev_toIndex = 1, ev_fromSwimlaneId = Null, ev_toSwimlaneId = Undefined\<rparr>"

text \<open>
  A board whose only card has the id 0, with a column \<open>B\<close> that refuses cards
  (\<^verbatim>\<open>acceptsCards: false\<close>).
\<close>

definition lockedB :: KanbanColumn where
  "lockedB = columnB\<lparr>col_acceptsCards := Some False\<rparr>"

definition zeroBoard :: Board where
  "zeroBoard =
     \<lparr>b_heap = [mkCard (IdNum 0) colA 0], b_columns = [columnA, lockedB], b_cards = [0],
      b_swimlanes = [], b_options = noOptions, b_dragState = resetDragState\<rparr>"

text \<open>Column \<open>A\<close> with a work-in-progress limit of 0, and of 1.\<close>

definition zeroLimitA :: KanbanColumn where
  "zeroLimitA = columnA\<lparr>col_wipLimit := Some 0\<rparr>"

definition oneLimitA :: KanbanColumn where
  "oneLimitA = columnA\<lparr>col_wipLimit := Some 1\<rparr>"

text \<open>
  A board without swimlane mode whose cards carry a swimlane id: \<open>k1\<close> (A, s1, 0),
  \<open>k2\<close> (B, s1, 0) and \<open>k3\<close> (B, s1, 1). And the move event that dropping \<open>k1\<close> on
  column \<open>B\<close> produces.
\<close>

definition swimS1 :: OptId where "swimS1 = Id (IdStr ''s1'')"

definition mixedHeap :: heap where
  "mixedHeap =
     [(mkCard (IdStr ''k1'') colA 0)\<lparr>card_swimlaneId := swimS1\<rparr>,
      (mkCard (IdStr ''k2'') colB 0)\<lparr>card_swimlaneId := swimS1\<rparr>,
      (mkCard (IdStr ''k3'') colB 1)\<lparr>card_swimlaneId := swimS1\<rparr>]"

definition mixedBoard :: Board where
  "mixedBoard = scenarioBoard\<lparr>b_heap := mixedHeap\<rparr>"

definition mixedMove :: CardMoveEvent where
  "mixedMove =
     \<lparr>ev_card = 0, ev_fromColumnId = colA, ev_toColumnId = colB, ev_fromIndex = 0,
      ev_toIndex = 2, ev_fromSwimlaneId = swimS1, ev_toSwimlaneId = Undefined\<rparr>"

lemmas example_defs =
  colA_def colB_def mkCard_def mkColumn_def noOptions_def noDragOptions_def
  c1_def c2_def c3_def columnA_def columnB_def scenarioHeap_def scenarioBoard_def
  scenarioMove_def draggingC1_def draggingBoard_def dropMove_def pairHeap_def pairBoard_def
  sameGroupMove_def selfMove_def staleBoard_def staleMove_def lockedB_def zeroBoard_def
  zeroLimitA_def oneLimitA_def swimS1_def mixedHeap_def mixedBoard_def mixedMove_def


lemmas board_defs =
  handleCardDragStart_def handleCardDragEnd_def handleColumnDragOver_def handleColumnDrop_def
  handleDrop_def handleDragEnd_def handleDragOver_def startCardDrag_def startColumnDrag_def
  dragOptions_def isDragEnabled_def isColumnDragEnabled_def resetDragState_def orNull_def
  canDrag_def canAcceptCards_def getCardById_def getCardsForColumn_def getCardCount_def
  emitBoardChange_def swimlanesEnabled_def

section \<open>Auxiliary facts\<close>

lemma findIndex_None: "findIndex p xs = None \<longleftrightarrow> find p xs = None"
  by (induction xs) (auto split: option.splits)

lemma boardCallback_CardMoved:
  "boardCallback b h cb = (h', es) \<Longrightarrow> CardMoved e \<in> set es \<Longrightarrow> cb = OnCardMoved e"
  by (cases cb) (auto simp: Let_def emitBoardChange_def split: prod.splits)

lemma boardCallbacks_CardMoved:
  "boardCallbacks b h cbs = (h', es) \<Longrightarrow> CardMoved e \<in> set es \<Longrightarrow> OnCardMoved e \<in> set cbs"
proof (induction cbs arbitrary: h h' es)
  case Nil
  then show ?case by simp
next
  case (Cons cb cbs)
  obtain h1 es1 where s1: "boardCallback b h cb = (h1, es1)"
    by (cases "boardCallback b h cb")
  obtain h2 es2 where s2: "boardCallbacks b h1 cbs = (h2, es2)"
    by (cases "boardCallbacks b h1 cbs")
  from Cons.prems(1) s1 s2 have "es = es1 @ es2" by simp
  with Cons.prems(2) have "CardMoved e \<in> set es1 \<or> CardMoved e \<in> set es2" by simp
  then show ?case
  proof
    assume "CardMoved e \<in> set es1"
    with s1 have "cb = OnCardMoved e" by (rule boardCallback_CardMoved)
    then show ?thesis by simp
  next
    assume "CardMoved e \<in> set es2"
    with s2 have "OnCardMoved e \<in> set cbs" by (rule Cons.IH)
    then show ?thesis by simp
  qed
qed

lemma handleDrop_toIndex:
  "OnCardMoved e \<in> set (snd (handleDrop options h st columnId swimlaneId getCard getCardsInColumn)) \<Longrightarrow>
   ev_toColumnId e \<noteq> ev_fromColumnId e \<or> ev_toSwimlaneId e \<noteq> ev_fromSwimlaneId e \<Longrightarrow>
   ev_toIndex e = int (length (getCardsInColumn columnId swimlaneId)) \<and>
   ev_toColumnId e = columnId \<and> ev_toSwimlaneId e = swimlaneId"
  by (auto simp: handleDrop_def Let_def split: if_splits option.splits OptId.splits)

lemma handleColumnDrop_CardMoved:
  assumes "CardMoved e \<in> set (snd (handleColumnDrop b columnId swimlaneId))"
  shows "OnCardMoved e \<in> set (snd (handleDrop (dragOptions b) (b_heap b) (b_dragState b)
       columnId swimlaneId (getCardById (b_heap b) (b_cards b))
       (\<lambda>colId swimId. getCardsForColumn (b_heap b) (b_cards b) colId swimId)))"
proof -
  obtain st cbs where d: "handleDrop (dragOptions b) (b_heap b) (b_dragState b) columnId swimlaneId
       (getCardById (b_heap b) (b_cards b))
       (\<lambda>colId swimId. getCardsForColumn (b_heap b) (b_cards b) colId swimId) = (st, cbs)"
    by (cases "handleDrop (dragOptions b) (b_heap b) (b_dragState b) columnId swimlaneId
       (getCardById (b_heap b) (b_cards b))
       (\<lambda>colId swimId. getCardsForColumn (b_heap b) (b_cards b) colId swimId)")
  obtain h es where c: "boardCallbacks b (b_heap b) cbs = (h, es)"
    by (cases "boardCallbacks b (b_heap b) cbs")
  from assms d c have "CardMoved e \<in> set es"
    by (simp add: handleColumnDrop_def)
  with c have "OnCardMoved e \<in> set cbs"
    by (rule boardCallbacks_CardMoved)
  with d show ?thesis by simp
qed












section \<open>Gestures that end on a column that refuses cards\<close>

text \<open>
  A gesture that hovers over columns only changes the drop target of the drag state.
\<close>

lemma run_append:
  "run b (xs @ ys) =
     (let (b1, out1) = run b xs; (b2, out2) = run b1 ys in (b2, out1 @ out2))"
  by (induction xs arbitrary: b) (auto simp: Let_def split: prod.splits)

lemma dispatch_ColumnDragOver:
  "\<exists>st. dispatch b (ColumnDragOver column swimlaneId) = (b\<lparr>b_dragState := st\<rparr>, []) \<and>
        draggedId st = draggedId (b_dragState b) \<and> dragType st = dragType (b_dragState b) \<and>
        sourceColumnId st = sourceColumnId (b_dragState b) \<and>
        sourceSwimlaneId st = sourceSwimlaneId (b_dragState b)"
proof (cases "canAcceptCards column")
  case False
  then have "dispatch b (ColumnDragOver column swimlaneId) = (b\<lparr>b_dragState := b_dragState b\<rparr>, [])"
    by simp
  then show ?thesis by blast
next
  case True
  let ?st = "handleDragOver (dragOptions b) (b_dragState b) (col_id column) swimlaneId"
  from True have "dispatch b (ColumnDragOver column swimlaneId) = (b\<lparr>b_dragState := ?st\<rparr>, [])"
    by (simp add: handleColumnDragOver_def)
  moreover have "draggedId ?st = draggedId (b_dragState b)" "dragType ?st = dragType (b_dragState b)"
    "sourceColumnId ?st = sourceColumnId (b_dragState b)"
    "sourceSwimlaneId ?st = sourceSwimlaneId (b_dragState b)"
    by (simp_all add: handleDragOver_def)
  ultimately show ?thesis by blast
qed

lemma run_hovers:
  "\<exists>st. run b (map (\<lambda>(column, swimlaneId). ColumnDragOver column swimlaneId) hovers) =
          (b\<lparr>b_dragState := st\<rparr>, []) \<and>
        draggedId st = draggedId (b_dragState b) \<and> dragType st = dragType (b_dragState b) \<and>
        sourceColumnId st = sourceColumnId (b_dragState b) \<and>
        sourceSwimlaneId st = sourceSwimlaneId (b_dragState b)"
proof (induction hovers arbitrary: b)
  case Nil
  have "run b (map (\<lambda>(column, swimlaneId). ColumnDragOver column swimlaneId) []) =
      (b\<lparr>b_dragState := b_dragState b\<rparr>, [])"
    by simp
  then show ?case by blast
next
  case (Cons hv hovers)
  obtain column swimlaneId where hv: "hv = (column, swimlaneId)" by (cases hv)
  from dispatch_ColumnDragOver [of b column swimlaneId]
  obtain st1 where d: "dispatch b (ColumnDragOver column swimlaneId) = (b\<lparr>b_dragState := st1\<rparr>, [])"
    and k1: "draggedId st1 = draggedId (b_dragState b)" "dragType st1 = dragType (b_dragState b)"
      "sourceColumnId st1 = sourceColumnId (b_dragState b)"
      "sourceSwimlaneId st1 = sourceSwimlaneId (b_dragState b)"
    by blast
  from Cons.IH [of "b\<lparr>b_dragState := st1\<rparr>"]
  obtain st2 where r: "run (b\<lparr>b_dragState := st1\<rparr>)
        (map (\<lambda>(column, swimlaneId). ColumnDragOver column swimlaneId) hovers) =
          (b\<lparr>b_dragState := st2\<rparr>, [])"
    and k2: "draggedId st2 = draggedId st1" "dragType st2 = dragType st1"
      "sourceColumnId st2 = sourceColumnId st1" "sourceSwimlaneId st2 = sourceSwimlaneId st1"
    by auto
  from hv d r have "run b (map (\<lambda>(column, swimlaneId). ColumnDragOver column swimlaneId) (hv # hovers)) =
      (b\<lparr>b_dragState := st2\<rparr>, [])"
    by simp
  with k1 k2 show ?case by auto
qed

text \<open>
  For a card whose id is truthy (not 0, not the empty string), the gesture that drags
  it, hovers over any columns, drops on a column that refuses cards and ends leaves the
  store and the collections as they are and emits the \<^verbatim>\<open>drag-start\<close> event and a
  \<^verbatim>\<open>drag-end\<close> event with success = false, and nothing else.
\<close>

lemma rejected_drop_of_truthy_card:
  assumes drag: "canDrag b (b_heap b ! kcard)"
    and id: "truthy (Id (card_id (b_heap b ! kcard)))"
    and refuse: "\<not> canAcceptCards column"
  shows "run b (CardDragStart kcard #
                map (\<lambda>(column, swimlaneId). ColumnDragOver column swimlaneId) hovers @
                [ColumnDrop column swimlaneId, CardDragEnd]) =
         (b\<lparr>b_dragState := resetDragState\<rparr>,
          [DragStart CardDrag (card_id (b_heap b ! kcard)) (Id (card_columnId (b_heap b ! kcard))),
           DragEnd CardDrag (card_id (b_heap b ! kcard)) False])"
proof -
  let ?c = "b_heap b ! kcard"
  from drag have en: "isDragEnabled (dragOptions b)" "card_draggable ?c \<noteq> Some False"
    by (auto simp: canDrag_def dragOptions_def isDragEnabled_def split: option.splits)
  obtain st1 where s1: "fst (startCardDrag (dragOptions b) ?c (b_dragState b)) = st1"
    by simp
  with en have k1: "draggedId st1 = Id (card_id ?c)" "dragType st1 = Some CardDrag"
    by (auto simp: startCardDrag_def)
  from drag en s1 have start: "dispatch b (CardDragStart kcard) =
      (b\<lparr>b_dragState := st1\<rparr>,
       [DragStart CardDrag (card_id ?c) (Id (card_columnId ?c))])"
    by (auto simp: handleCardDragStart_def startCardDrag_def)
  from run_hovers [of "b\<lparr>b_dragState := st1\<rparr>" hovers]
  obtain st2 where hov: "run (b\<lparr>b_dragState := st1\<rparr>)
        (map (\<lambda>(column, swimlaneId). ColumnDragOver column swimlaneId) hovers) =
          (b\<lparr>b_dragState := st2\<rparr>, [])"
    and k2: "draggedId st2 = draggedId st1" "dragType st2 = dragType st1"
    by auto
  from refuse have drop: "dispatch (b\<lparr>b_dragState := st2\<rparr>) (ColumnDrop column swimlaneId) =
      (b\<lparr>b_dragState := st2\<rparr>, [])"
    by simp
  from id k1 k2 have fin: "dispatch (b\<lparr>b_dragState := st2\<rparr>) CardDragEnd =
      (b\<lparr>b_dragState := resetDragState\<rparr>, [DragEnd CardDrag (card_id ?c) False])"
    by (simp add: handleCardDragEnd_def handleDragEnd_def)
  from start hov drop fin show ?thesis
    by (simp add: run_append)
qed

section \<open>Column moves\<close>

text \<open>
  \<open>moveColumn\<close> keeps the ids of the columns, each as often as before, and numbers the
  columns of its result 0 to \<open>n - 1\<close> in their new sequence.
\<close>

lemma findIndex_Some: "findIndex p xs = Some i \<Longrightarrow> i < length xs \<and> p (xs ! i)"
proof (induction xs arbitrary: i)
  case Nil
  then show ?case by simp
next
  case (Cons x xs)
  then show ?case
    by (cases "p x") (auto split: option.splits)
qed

lemma mset_splice_remove:
  "i < length xs \<Longrightarrow> add_mset (xs ! i) (mset (splice_remove xs i)) = mset xs"
proof -
  assume "i < length xs"
  then have "xs = take i xs @ xs ! i # drop (Suc i) xs"
    by (rule id_take_nth_drop)
  then have "mset xs = mset (take i xs @ xs ! i # drop (Suc i) xs)"
    by simp
  then show ?thesis
    by (simp add: splice_remove_def)
qed

lemma mset_splice_insert: "mset (splice_insert xs k x) = add_mset x (mset xs)"
proof -
  have "mset (take n xs) + mset (drop n xs) = mset xs" for n
    by (metis append_take_drop_id mset_append)
  then show ?thesis
    by (simp add: splice_insert_def Let_def)
qed

lemma length_splice_insert: "length (splice_insert xs k x) = Suc (length xs)"
  by (simp add: splice_insert_def Let_def)

lemma renumbered_ids:
  "map col_id (map (\<lambda>(idx, col). col\<lparr>col_ord := int idx\<rparr>) (enumerate n ys)) = map col_id ys"
  by (induction ys arbitrary: n) auto

lemma renumbered_orders:
  "map col_ord (map (\<lambda>(idx, col). col\<lparr>col_ord := int idx\<rparr>) (enumerate n ys)) =
     map int [n..<n + length ys]"
  by (induction ys arbitrary: n) (auto simp: upt_rec)

lemma moveColumn_preserves_ids:
  "mset (map col_id (moveColumn currentColumns event)) = mset (map col_id currentColumns)"
proof (cases "findIndex (\<lambda>c. col_id c = col_id (cev_column event)) currentColumns")
  case None
  then show ?thesis by (simp add: moveColumn_def)
next
  case (Some i)
  then have "i < length currentColumns" by (simp add: findIndex_Some)
  then have "mset (splice_insert (splice_remove currentColumns i) (cev_toIndex event) (currentColumns ! i))
      = mset currentColumns"
    by (simp add: mset_splice_insert mset_splice_remove)
  then have "mset (map col_id (splice_insert (splice_remove currentColumns i) (cev_toIndex event) (currentColumns ! i)))
      = mset (map col_id currentColumns)"
    by (metis mset_map)
  moreover from Some have "map col_id (moveColumn currentColumns event) =
      map col_id (splice_insert (splice_remove currentColumns i) (cev_toIndex event) (currentColumns ! i))"
    by (simp only: moveColumn_def Let_def option.case renumbered_ids)
  ultimately show ?thesis by (simp only:)
qed

lemma moveColumn_orders:
  assumes "findIndex (\<lambda>c. col_id c = col_id (cev_column event)) currentColumns = Some i"
  shows "map col_ord (moveColumn currentColumns event) = map int [0..<length currentColumns]"
proof -
  from assms have i: "i < length currentColumns" by (simp add: findIndex_Some)
  then have "length (splice_remove currentColumns i) = length currentColumns - 1"
    by (simp add: splice_remove_def)
  with i have "length (splice_insert (splice_remove currentColumns i) (cev_toIndex event) (currentColumns ! i))
      = length currentColumns"
    by (simp add: length_splice_insert)
  with assms show ?thesis
    using renumbered_orders [of 0 "splice_insert (splice_remove currentColumns i) (cev_toIndex event) (currentColumns ! i)"]
    by (simp add: moveColumn_def Let_def)
qed

section \<open>Card moves between two different groups\<close>

text \<open>
  The renumbering changes nothing of a card but its order, so the group of a card is the
  same in every store \<open>moveCard\<close> goes through.
\<close>

lemma length_renumber: "length (renumber h as idx) = length h"
  by (induction as arbitrary: h idx) auto

lemma order_update_frame:
  "card_id (h[a := (h ! a)\<lparr>card_ord := v\<rparr>] ! b) = card_id (h ! b)"
  "card_columnId (h[a := (h ! a)\<lparr>card_ord := v\<rparr>] ! b) = card_columnId (h ! b)"
  "card_swimlaneId (h[a := (h ! a)\<lparr>card_ord := v\<rparr>] ! b) = card_swimlaneId (h ! b)"
proof -
  show "card_id (h[a := (h ! a)\<lparr>card_ord := v\<rparr>] ! b) = card_id (h ! b)"
    by (cases "a < length h") (simp_all add: nth_list_update list_update_beyond)
  show "card_columnId (h[a := (h ! a)\<lparr>card_ord := v\<rparr>] ! b) = card_columnId (h ! b)"
    by (cases "a < length h") (simp_all add: nth_list_update list_update_beyond)
  show "card_swimlaneId (h[a := (h ! a)\<lparr>card_ord := v\<rparr>] ! b) = card_swimlaneId (h ! b)"
    by (cases "a < length h") (simp_all add: nth_list_update list_update_beyond)
qed

lemma renumber_frame:
  "card_id (renumber h as idx ! b) = card_id (h ! b)"
  "card_columnId (renumber h as idx ! b) = card_columnId (h ! b)"
  "card_swimlaneId (renumber h as idx ! b) = card_swimlaneId (h ! b)"
proof (induction as arbitrary: h idx)
  case Nil
  {
    case 1 show ?case by simp
  next
    case 2 show ?case by simp
  next
    case 3 show ?case by simp
  }
next
  case (Cons a as)
  {
    case 1 show ?case by (simp add: Cons.IH(1) order_update_frame(1))
  next
    case 2 show ?case by (simp add: Cons.IH(2) order_update_frame(2))
  next
    case 3 show ?case by (simp add: Cons.IH(3) order_update_frame(3))
  }
qed

lemma inGroup_renumber: "inGroup (renumber h as idx) c s = inGroup h c s"
  by (rule ext) (simp add: inGroup_def renumber_frame)

lemma mset_three_filters:
  assumes "\<And>x. \<not> (P x \<and> Q x)"
  shows "mset (filter (\<lambda>x. \<not> P x \<and> \<not> Q x) xs) + mset (filter P xs) + mset (filter Q xs) = mset xs"
  using assms by (induction xs) auto

lemma inGroup_disjoint:
  "c \<noteq> c' \<or> s \<noteq> s' \<Longrightarrow> \<not> (inGroup h c s a \<and> inGroup h c' s' a)"
  by (auto simp: inGroup_def)

text \<open>
  When the target group of the event differs from its source group and every reference of
  the array is in the store, \<open>moveCard\<close> keeps the ids of the cards, each as often as
  before.
\<close>

lemma moveCard_preserves_ids:
  assumes valid: "\<forall>a\<in>set currentCards. a < length h"
    and differ: "ev_toColumnId event \<noteq> ev_fromColumnId event \<or>
                 ev_toSwimlaneId event \<noteq> ev_fromSwimlaneId event"
  shows "mset (map (\<lambda>a. card_id (fst (moveCard h currentCards event) ! a))
                 (snd (moveCard h currentCards event))) =
         mset (map (\<lambda>a. card_id (h ! a)) currentCards)"
proof (cases "findIndex (\<lambda>c. card_id (h ! c) = card_id (h ! ev_card event)) currentCards")
  case None
  then show ?thesis by (simp add: moveCard_def)
next
  case (Some i)
  define u where "u = length h"
  define h1 where "h1 = h @ [(h ! (currentCards ! i))
                          \<lparr>card_columnId := ev_toColumnId event,
                           card_ord := ev_toIndex event,
                           card_swimlaneId := ev_toSwimlaneId event\<rparr>]"
  define cards1 where "cards1 = splice_remove currentCards i"
  define h2 where "h2 = renumber h1
      (filter (inGroup h1 (ev_fromColumnId event) (ev_fromSwimlaneId event)) cards1) 0"
  define targetCards where "targetCards = splice_insert
      (filter (inGroup h2 (ev_toColumnId event) (ev_toSwimlaneId event)) cards1)
      (ev_toIndex event) u"
  define h3 where "h3 = renumber h2 targetCards 0"
  define out where "out =
      filter (\<lambda>c. \<not> inGroup h3 (ev_toColumnId event) (ev_toSwimlaneId event) c \<and>
                   \<not> inGroup h3 (ev_fromColumnId event) (ev_fromSwimlaneId event) c) cards1 @
      targetCards @
      filter (inGroup h3 (ev_fromColumnId event) (ev_fromSwimlaneId event)) cards1"
  from Some have res: "moveCard h currentCards event = (h3, out)"
    by (simp only: moveCard_def Let_def option.case u_def h1_def cards1_def h2_def targetCards_def h3_def out_def)
  have g: "inGroup h3 c s = inGroup h1 c s" "inGroup h2 c s = inGroup h1 c s" for c s
    by (simp_all add: h3_def h2_def inGroup_renumber)
  from differ have disj: "\<not> (inGroup h1 (ev_toColumnId event) (ev_toSwimlaneId event) x \<and>
      inGroup h1 (ev_fromColumnId event) (ev_fromSwimlaneId event) x)" for x
    by (rule inGroup_disjoint)
  have "mset out = add_mset u (mset cards1)"
    using mset_three_filters [of "inGroup h1 (ev_toColumnId event) (ev_toSwimlaneId event)"
        "inGroup h1 (ev_fromColumnId event) (ev_fromSwimlaneId event)" cards1, OF disj]
    by (simp add: out_def targetCards_def g mset_splice_insert ac_simps)
  then have "mset (map (\<lambda>a. card_id (h1 ! a)) out) =
      add_mset (card_id (h1 ! u)) (mset (map (\<lambda>a. card_id (h1 ! a)) cards1))"
    by simp
  moreover have "card_id (h3 ! a) = card_id (h1 ! a)" for a
    by (simp add: h3_def h2_def renumber_frame)
  moreover have "card_id (h1 ! u) = card_id (h ! (currentCards ! i))"
    by (simp add: h1_def u_def)
  moreover from Some have i: "i < length currentCards"
    by (simp add: findIndex_Some)
  then have parts: "add_mset (currentCards ! i) (mset cards1) = mset currentCards"
    by (simp add: cards1_def mset_splice_remove)
  then have "set cards1 \<subseteq> set currentCards"
    by (metis set_mset_mset set_mset_add_mset_insert subset_insertI)
  with valid have "map (\<lambda>a. card_id (h1 ! a)) cards1 = map (\<lambda>a. card_id (h ! a)) cards1"
    by (auto simp: h1_def nth_append)
  moreover from parts have "add_mset (card_id (h ! (currentCards ! i))) (mset (map (\<lambda>a. card_id (h ! a)) cards1))
      = mset (map (\<lambda>a. card_id (h ! a)) currentCards)"
    by (metis image_mset_add_mset mset_map)
  ultimately show ?thesis
    by (simp add: res)
qed

text \<open>
  A move to an index at or beyond the size of the target group appends: the new card is
  the last of the target group in the array returned, and its order is the number of the
  other cards of that group.
\<close>

lemma renumber_append:
  "renumber h (as @ bs) idx = renumber (renumber h as idx) bs (idx + length as)"
  by (induction as arbitrary: h idx) auto

lemma splice_insert_end:
  "int (length xs) \<le> k \<Longrightarrow> splice_insert xs k x = xs @ [x]"
  by (simp add: splice_insert_def Let_def min_def)

lemma length_filter_splice_remove:
  "length (filter P (splice_remove xs i)) \<le> length (filter P xs)"
proof (cases "i < length xs")
  case True
  then have "xs = take i xs @ xs ! i # drop (Suc i) xs"
    by (rule id_take_nth_drop)
  then have "filter P xs = filter P (take i xs) @ filter P [xs ! i] @ filter P (drop (Suc i) xs)"
    by (metis append_Cons append_Nil filter_append)
  then show ?thesis
    by (simp add: splice_remove_def)
next
  case False
  then show ?thesis
    by (simp add: splice_remove_def)
qed

lemma length_filter_mono:
  "(\<And>x. P x \<Longrightarrow> Q x) \<Longrightarrow> length (filter P xs) \<le> length (filter Q xs)"
  by (induction xs) auto

lemma set_splice_remove: "set (splice_remove xs i) \<subseteq> set xs"
  by (auto simp: splice_remove_def dest: in_set_takeD in_set_dropD)

lemma renumber_other: "b \<notin> set as \<Longrightarrow> renumber h as idx ! b = h ! b"
  by (induction as arbitrary: h idx) auto

lemma renumber_bound:
  "a \<in> set as \<Longrightarrow> a < length h \<Longrightarrow>
   int idx \<le> card_ord (renumber h as idx ! a) \<and>
   card_ord (renumber h as idx ! a) < int (idx + length as)"
proof (induction as arbitrary: h idx)
  case Nil
  then show ?case by simp
next
  case (Cons b bs)
  let ?h = "h[b := (h ! b)\<lparr>card_ord := int idx\<rparr>]"
  show ?case
  proof (cases "a \<in> set bs")
    case True
    with Cons.prems have "int (Suc idx) \<le> card_ord (renumber ?h bs (Suc idx) ! a) \<and>
        card_ord (renumber ?h bs (Suc idx) ! a) < int (Suc idx + length bs)"
      by (intro Cons.IH) simp_all
    then show ?thesis by simp
  next
    case False
    with Cons.prems have "a = b" by simp
    with False Cons.prems have "renumber ?h bs (Suc idx) ! a = (h ! a)\<lparr>card_ord := int idx\<rparr>"
      by (simp add: renumber_other)
    then show ?thesis by simp
  qed
qed

lemma moveCard_places_last:
  assumes valid: "\<forall>a\<in>set currentCards. a < length h"
    and differ: "ev_toColumnId event \<noteq> ev_fromColumnId event \<or>
                 ev_toSwimlaneId event \<noteq> ev_fromSwimlaneId event"
    and found: "findIndex (\<lambda>c. card_id (h ! c) = card_id (h ! ev_card event)) currentCards = Some i"
    and beyond: "int (length (filter (inGroup h (ev_toColumnId event) (ev_toSwimlaneId event)) currentCards))
                 \<le> ev_toIndex event"
  shows "filter (inGroup (fst (moveCard h currentCards event)) (ev_toColumnId event) (ev_toSwimlaneId event))
           (snd (moveCard h currentCards event)) =
         filter (inGroup h (ev_toColumnId event) (ev_toSwimlaneId event)) (splice_remove currentCards i) @
         [length h]"
    and "card_ord (fst (moveCard h currentCards event) ! length h) =
         int (length (filter (inGroup h (ev_toColumnId event) (ev_toSwimlaneId event))
                        (splice_remove currentCards i)))"
    and "card_id (fst (moveCard h currentCards event) ! length h) = card_id (h ! ev_card event)"
    and "\<forall>a\<in>set (filter (inGroup h (ev_toColumnId event) (ev_toSwimlaneId event))
                       (splice_remove currentCards i)).
           card_ord (fst (moveCard h currentCards event) ! a) <
           card_ord (fst (moveCard h currentCards event) ! length h)"
    and "set (snd (moveCard h currentCards event)) \<subseteq> insert (length h) (set currentCards)"
    and "\<forall>a\<in>set currentCards.
           card_columnId (fst (moveCard h currentCards event) ! a) = card_columnId (h ! a) \<and>
           card_swimlaneId (fst (moveCard h currentCards event) ! a) = card_swimlaneId (h ! a)"
    and "card_columnId (fst (moveCard h currentCards event) ! length h) = ev_toColumnId event \<and>
         card_swimlaneId (fst (moveCard h currentCards event) ! length h) = ev_toSwimlaneId event"
proof -
  define u where "u = length h"
  define h1 where "h1 = h @ [(h ! (currentCards ! i))
                          \<lparr>card_columnId := ev_toColumnId event,
                           card_ord := ev_toIndex event,
                           card_swimlaneId := ev_toSwimlaneId event\<rparr>]"
  define cards1 where "cards1 = splice_remove currentCards i"
  define h2 where "h2 = renumber h1
      (filter (inGroup h1 (ev_fromColumnId event) (ev_fromSwimlaneId event)) cards1) 0"
  define targetCards where "targetCards = splice_insert
      (filter (inGroup h2 (ev_toColumnId event) (ev_toSwimlaneId event)) cards1)
      (ev_toIndex event) u"
  define h3 where "h3 = renumber h2 targetCards 0"
  define out where "out =
      filter (\<lambda>c. \<not> inGroup h3 (ev_toColumnId event) (ev_toSwimlaneId event) c \<and>
                   \<not> inGroup h3 (ev_fromColumnId event) (ev_fromSwimlaneId event) c) cards1 @
      targetCards @
      filter (inGroup h3 (ev_fromColumnId event) (ev_fromSwimlaneId event)) cards1"
  define T where "T = filter (inGroup h (ev_toColumnId event) (ev_toSwimlaneId event)) cards1"
  from found have res: "moveCard h currentCards event = (h3, out)"
    by (simp only: moveCard_def Let_def option.case u_def h1_def cards1_def h2_def targetCards_def h3_def out_def)
  have g: "inGroup h3 c s = inGroup h1 c s" "inGroup h2 c s = inGroup h1 c s" for c s
    by (simp_all add: h3_def h2_def inGroup_renumber)
  have sub: "set cards1 \<subseteq> set currentCards"
    by (simp add: cards1_def set_splice_remove)
  with valid have old: "inGroup h1 c s a = inGroup h c s a" if "a \<in> set cards1" for c s a
    using that by (auto simp: inGroup_def h1_def nth_append)
  then have T: "filter (inGroup h1 (ev_toColumnId event) (ev_toSwimlaneId event)) cards1 = T"
    unfolding T_def by (intro filter_cong) auto
  have "length T \<le> length (filter (inGroup h (ev_toColumnId event) (ev_toSwimlaneId event)) currentCards)"
    by (simp add: T_def cards1_def length_filter_splice_remove)
  with beyond have "int (length T) \<le> ev_toIndex event" by linarith
  then have target: "targetCards = T @ [u]"
    by (simp add: targetCards_def g T splice_insert_end)
  have new: "inGroup h1 (ev_toColumnId event) (ev_toSwimlaneId event) u"
    by (simp add: inGroup_def h1_def u_def)
  from differ have disj: "\<not> (inGroup h1 (ev_toColumnId event) (ev_toSwimlaneId event) x \<and>
      inGroup h1 (ev_fromColumnId event) (ev_fromSwimlaneId event) x)" for x
    by (rule inGroup_disjoint)
  let ?P = "inGroup h1 (ev_toColumnId event) (ev_toSwimlaneId event)"
  let ?Q = "inGroup h1 (ev_fromColumnId event) (ev_fromSwimlaneId event)"
  have others: "filter ?P (filter (\<lambda>c. \<not> ?P c \<and> \<not> ?Q c) cards1) = []"
    by (induction cards1) auto
  have source: "filter ?P (filter ?Q cards1) = []"
    using disj by (induction cards1) auto
  have kept: "filter ?P T = T"
    unfolding T [symmetric] by simp
  from new have moved: "filter ?P [u] = [u]"
    by simp
  have "out = filter (\<lambda>c. \<not> ?P c \<and> \<not> ?Q c) cards1 @ (T @ [u]) @ filter ?Q cards1"
    by (simp add: out_def g target)
  then have "filter ?P out = T @ [u]"
    by (simp only: filter_append others source kept moved append_Nil append_Nil2)
  then show "filter (inGroup (fst (moveCard h currentCards event)) (ev_toColumnId event) (ev_toSwimlaneId event))
           (snd (moveCard h currentCards event)) =
         filter (inGroup h (ev_toColumnId event) (ev_toSwimlaneId event)) (splice_remove currentCards i) @
         [length h]"
    by (simp add: res g T_def cards1_def u_def)
  have len: "u < length (renumber h2 T 0)"
    by (simp add: length_renumber h2_def h1_def u_def)
  then have "card_ord (h3 ! u) = int (length T)"
    by (simp add: h3_def target renumber_append)
  then show "card_ord (fst (moveCard h currentCards event) ! length h) =
         int (length (filter (inGroup h (ev_toColumnId event) (ev_toSwimlaneId event))
                        (splice_remove currentCards i)))"
    by (simp add: res T_def cards1_def u_def)
  have "card_id (h3 ! u) = card_id (h1 ! u)"
    by (simp add: h3_def h2_def renumber_frame)
  moreover have "card_id (h1 ! u) = card_id (h ! (currentCards ! i))"
    by (simp add: h1_def u_def)
  moreover from findIndex_Some [OF found]
  have "card_id (h ! (currentCards ! i)) = card_id (h ! ev_card event)"
    by simp
  ultimately show "card_id (fst (moveCard h currentCards event) ! length h) = card_id (h ! ev_card event)"
    by (simp add: res u_def)
  have below: "card_ord (h3 ! a) < card_ord (h3 ! u)" if "a \<in> set T" for a
  proof -
    from that have a: "a \<in> set cards1" by (simp add: T_def)
    with sub valid have "a < u" by (auto simp: u_def)
    then have "a < length h2" "a \<noteq> u"
      by (simp_all add: h2_def length_renumber h1_def u_def)
    from renumber_bound [OF that this(1), of 0]
    have "card_ord (renumber h2 T 0 ! a) < int (length T)" by simp
    moreover from \<open>a \<noteq> u\<close> have "h3 ! a = renumber h2 T 0 ! a"
      by (simp add: h3_def target renumber_append)
    ultimately show ?thesis
      using \<open>card_ord (h3 ! u) = int (length T)\<close> by simp
  qed
  then show "\<forall>a\<in>set (filter (inGroup h (ev_toColumnId event) (ev_toSwimlaneId event))
                       (splice_remove currentCards i)).
           card_ord (fst (moveCard h currentCards event) ! a) <
           card_ord (fst (moveCard h currentCards event) ! length h)"
    by (simp add: res T_def cards1_def u_def)
  have "set out \<subseteq> insert u (set cards1)"
    by (auto simp: out_def target T_def)
  with sub show "set (snd (moveCard h currentCards event)) \<subseteq> insert (length h) (set currentCards)"
    by (auto simp: res u_def)
  have same: "card_columnId (h3 ! a) = card_columnId (h1 ! a)"
    "card_swimlaneId (h3 ! a) = card_swimlaneId (h1 ! a)" for a
    by (simp_all add: h3_def h2_def renumber_frame)
  from valid show "\<forall>a\<in>set currentCards.
           card_columnId (fst (moveCard h currentCards event) ! a) = card_columnId (h ! a) \<and>
           card_swimlaneId (fst (moveCard h currentCards event) ! a) = card_swimlaneId (h ! a)"
    by (auto simp: res same h1_def nth_append)
  show "card_columnId (fst (moveCard h currentCards event) ! length h) = ev_toColumnId event \<and>
         card_swimlaneId (fst (moveCard h currentCards event) ! length h) = ev_toSwimlaneId event"
    by (simp add: res same h1_def)
qed

text \<open>
  So the card of every \<^verbatim>\<open>card-moved\<close> event that a drop emits for two different
  groups ends as the last card of the target group.
\<close>

lemma handleDrop_card:
  "OnCardMoved e \<in> set (snd (handleDrop options h st columnId swimlaneId getCard getCardsInColumn)) \<Longrightarrow>
   \<exists>dragged. getCard dragged = Some (ev_card e)"
  by (auto simp: handleDrop_def Let_def split: if_splits option.splits OptId.splits)

lemma getCardById_in_cards:
  "getCardById h currentCards k = Some a \<Longrightarrow> a \<in> set currentCards"
  by (auto simp: getCardById_def find_Some_iff)

lemma group_is_counted:
  "length (filter (inGroup h columnId swimlaneId) currentCards) \<le>
   getCardCount h currentCards columnId swimlaneId"
  unfolding getCardCount_def getCardsForColumn_def length_sort
  by (rule length_filter_mono) (simp add: inGroup_def)

lemma dropped_card_is_placed_last:
  assumes emitted: "CardMoved e \<in> set (snd (handleColumnDrop b columnId swimlaneId))"
    and differ: "ev_toColumnId e \<noteq> ev_fromColumnId e \<or> ev_toSwimlaneId e \<noteq> ev_fromSwimlaneId e"
    and valid: "\<forall>a\<in>set (b_cards b). a < length (b_heap b)"
  shows "case moveCard (b_heap b) (b_cards b) e of
           (h', out) \<Rightarrow>
             last (filter (inGroup h' columnId swimlaneId) out) = length (b_heap b) \<and>
             card_id (h' ! length (b_heap b)) = card_id (b_heap b ! ev_card e) \<and>
             card_ord (h' ! length (b_heap b)) =
               int (length (filter (inGroup h' columnId swimlaneId) out)) - 1"
proof -
  let ?h = "b_heap b" and ?cards = "b_cards b"
  note moved = handleColumnDrop_CardMoved [OF emitted]
  from handleDrop_toIndex [OF moved differ]
  have idx: "ev_toIndex e = int (getCardCount ?h ?cards columnId swimlaneId)"
    and to: "ev_toColumnId e = columnId" "ev_toSwimlaneId e = swimlaneId"
    by (simp_all add: getCardCount_def)
  from handleDrop_card [OF moved] have "ev_card e \<in> set ?cards"
    by (auto dest: getCardById_in_cards)
  then have "find (\<lambda>c. card_id (?h ! c) = card_id (?h ! ev_card e)) ?cards \<noteq> None"
    by (auto simp: find_None_iff)
  then obtain i where found: "findIndex (\<lambda>c. card_id (?h ! c) = card_id (?h ! ev_card e)) ?cards = Some i"
    by (auto simp: findIndex_None [symmetric])
  from idx to group_is_counted [of ?h columnId swimlaneId ?cards]
  have beyond: "int (length (filter (inGroup ?h (ev_toColumnId e) (ev_toSwimlaneId e)) ?cards))
      \<le> ev_toIndex e"
    by simp
  note placed = moveCard_places_last(1-3) [OF valid differ found beyond]
  obtain h' out where res: "moveCard ?h ?cards e = (h', out)"
    by (cases "moveCard ?h ?cards e")
  from placed res to show ?thesis
    by simp
qed





text \<open>
  Density: when, moreover, no reference is twice in the array and the source group of the
  event is the group of the card that is moved, \<open>moveCard\<close> keeps every group dense:
  it numbers the target and the source group anew and leaves the cards of every other
  group alone.
\<close>

lemma renumber_orders:
  "distinct as \<Longrightarrow> \<forall>a\<in>set as. a < length h \<Longrightarrow>
   map (\<lambda>a. card_ord (renumber h as idx ! a)) as = map int [idx..<idx + length as]"
proof (induction as arbitrary: h idx)
  case Nil
  then show ?case by simp
next
  case (Cons a as)
  let ?h = "h[a := (h ! a)\<lparr>card_ord := int idx\<rparr>]"
  from Cons.prems have a: "a \<notin> set as" "a < length h" by auto
  then have "card_ord (renumber ?h as (Suc idx) ! a) = int idx"
    by (simp add: renumber_other)
  moreover from Cons.prems have "map (\<lambda>a. card_ord (renumber ?h as (Suc idx) ! a)) as =
      map int [Suc idx..<Suc idx + length as]"
    by (intro Cons.IH) auto
  moreover have "[idx..<idx + length (a # as)] = idx # [Suc idx..<Suc idx + length as]"
    by (simp del: upt_Suc add: upt_conv_Cons)
  ultimately show ?case
    by (simp del: upt_Suc)
qed

lemma filter_splice_remove_other:
  "i < length xs \<Longrightarrow> \<not> P (xs ! i) \<Longrightarrow> filter P (splice_remove xs i) = filter P xs"
proof -
  assume i: "i < length xs" and n: "\<not> P (xs ! i)"
  from i have "xs = take i xs @ xs ! i # drop (Suc i) xs"
    by (rule id_take_nth_drop)
  then have "filter P xs = filter P (take i xs) @ filter P (xs ! i # drop (Suc i) xs)"
    by (metis filter_append)
  with n show ?thesis
    by (simp add: splice_remove_def)
qed

lemma distinct_splice_remove: "distinct xs \<Longrightarrow> distinct (splice_remove xs i)"
proof -
  assume d: "distinct xs"
  then have "distinct (take i xs)" "distinct (drop (Suc i) xs)"
    by simp_all
  moreover from d have "set (take i xs) \<inter> set (drop (Suc i) xs) = {}"
    by (metis append_take_drop_id distinct_append distinct_drop drop_Suc tl_drop set_take_disj_set_drop_if_distinct le_Suc_eq le_refl)
  ultimately show ?thesis
    by (simp add: splice_remove_def)
qed

lemma set_splice_insert: "set (splice_insert xs k x) = insert x (set xs)"
  by (metis mset_splice_insert set_mset_add_mset_insert set_mset_mset)

lemma distinct_splice_insert:
  "distinct xs \<Longrightarrow> x \<notin> set xs \<Longrightarrow> distinct (splice_insert xs k x)"
proof -
  assume d: "distinct xs" and x: "x \<notin> set xs"
  have "distinct (take n xs @ [x] @ drop n xs)" for n
  proof -
    from d have "set (take n xs) \<inter> set (drop n xs) = {}"
      by (simp add: set_take_disj_set_drop_if_distinct)
    with d x show ?thesis
      by (auto dest: in_set_takeD in_set_dropD)
  qed
  then show ?thesis
    by (simp only: splice_insert_def Let_def)
qed

lemma filter_filter_none: "(\<And>x. Q x \<Longrightarrow> \<not> P x) \<Longrightarrow> filter P (filter Q xs) = []"
  by (induction xs) auto

lemma filter_filter_others:
  "(\<And>x. G x \<Longrightarrow> \<not> P x \<and> \<not> Q x) \<Longrightarrow>
   filter G (filter (\<lambda>x. \<not> P x \<and> \<not> Q x) xs) = filter G xs"
  by (induction xs) auto

lemma moveCard_keeps_density:
  assumes valid: "\<forall>a\<in>set currentCards. a < length h"
    and dist: "distinct currentCards"
    and differ: "ev_toColumnId event \<noteq> ev_fromColumnId event \<or>
                 ev_toSwimlaneId event \<noteq> ev_fromSwimlaneId event"
    and found: "findIndex (\<lambda>c. card_id (h ! c) = card_id (h ! ev_card event)) currentCards = Some i"
    and source: "inGroup h (ev_fromColumnId event) (ev_fromSwimlaneId event) (currentCards ! i)"
    and dense: "\<And>c s. denseGroup h currentCards c s"
  shows "denseGroup (fst (moveCard h currentCards event)) (snd (moveCard h currentCards event)) c s"
proof -
  define u where "u = length h"
  define h1 where "h1 = h @ [(h ! (currentCards ! i))
                          \<lparr>card_columnId := ev_toColumnId event,
                           card_ord := ev_toIndex event,
                           card_swimlaneId := ev_toSwimlaneId event\<rparr>]"
  define cards1 where "cards1 = splice_remove currentCards i"
  define F where "F = filter (inGroup h1 (ev_fromColumnId event) (ev_fromSwimlaneId event)) cards1"
  define h2 where "h2 = renumber h1 F 0"
  define T where "T = filter (inGroup h1 (ev_toColumnId event) (ev_toSwimlaneId event)) cards1"
  define targetCards where "targetCards = splice_insert T (ev_toIndex event) u"
  define h3 where "h3 = renumber h2 targetCards 0"
  define others where "others =
      filter (\<lambda>c. \<not> inGroup h1 (ev_toColumnId event) (ev_toSwimlaneId event) c \<and>
                   \<not> inGroup h1 (ev_fromColumnId event) (ev_fromSwimlaneId event) c) cards1"
  define out where "out = others @ targetCards @ F"
  let ?P = "inGroup h1 (ev_toColumnId event) (ev_toSwimlaneId event)"
  let ?Q = "inGroup h1 (ev_fromColumnId event) (ev_fromSwimlaneId event)"
  let ?G = "inGroup h1 c s"
  have g: "inGroup h3 c' s' = inGroup h1 c' s'" "inGroup h2 c' s' = inGroup h1 c' s'" for c' s'
    by (simp_all add: h3_def h2_def inGroup_renumber)
  from found have res: "moveCard h currentCards event = (h3, out)"
    unfolding out_def others_def targetCards_def T_def h3_def h2_def F_def
    by (simp only: moveCard_def Let_def option.case u_def h1_def cards1_def inGroup_renumber)
  from found have i: "i < length currentCards"
    by (simp add: findIndex_Some)
  have sub: "set cards1 \<subseteq> set currentCards"
    by (simp add: cards1_def set_splice_remove)
  with valid have lt: "a < u" if "a \<in> set cards1" for a
    using that by (auto simp: u_def)
  then have fresh: "u \<notin> set cards1" by auto
  have old: "h1 ! a = h ! a" if "a \<in> set cards1" for a
    using lt [OF that] by (simp add: h1_def u_def nth_append)
  from dist have d1: "distinct cards1"
    by (simp add: cards1_def distinct_splice_remove)
  have len: "length h2 = Suc u" "length h1 = Suc u"
    by (simp_all add: h2_def length_renumber h1_def u_def)
  have new: "?P u"
    by (simp add: inGroup_def h1_def u_def)
  from differ have disj: "\<not> (?P x \<and> ?Q x)" for x
    by (rule inGroup_disjoint)
  have setT: "set targetCards = insert u (set T)"
    by (simp add: targetCards_def set_splice_insert)
  have inT: "a \<in> set cards1 \<and> ?P a" if "a \<in> set T" for a
    using that by (simp add: T_def)
  have inF: "a \<in> set cards1 \<and> ?Q a" if "a \<in> set F" for a
    using that by (simp add: F_def)
  from d1 have "distinct T" by (simp add: T_def)
  moreover from fresh have "u \<notin> set T" by (simp add: T_def)
  ultimately have dT: "distinct targetCards"
    by (simp add: targetCards_def distinct_splice_insert)
  from d1 have dF: "distinct F" by (simp add: F_def)
  have allP: "?P a" if "a \<in> set targetCards" for a
    using that new inT by (auto simp: setT)
  have apart: "a \<notin> set targetCards" if "a \<in> set F" for a
    using inF [OF that] allP [of a] disj [of a] by blast
  have at_target: "map (\<lambda>a. card_ord (h3 ! a)) targetCards = map int [0..<length targetCards]"
  proof -
    have "a < length h2" if "a \<in> set targetCards" for a
    proof -
      from that have "a = u \<or> a \<in> set T" by (simp add: setT)
      then show ?thesis
        using inT [of a] lt [of a] by (auto simp: len)
    qed
    then have "\<forall>a\<in>set targetCards. a < length h2" by blast
    from renumber_orders [OF dT this, of 0] show ?thesis
      by (simp add: h3_def)
  qed
  have at_source: "map (\<lambda>a. card_ord (h3 ! a)) F = map int [0..<length F]"
  proof -
    have "a < length h1" if "a \<in> set F" for a
      using inF [OF that] lt [of a] by (auto simp: len)
    then have "\<forall>a\<in>set F. a < length h1" by blast
    from renumber_orders [OF dF this, of 0]
    have "map (\<lambda>a. card_ord (h2 ! a)) F = map int [0..<length F]"
      by (simp add: h2_def)
    moreover have "map (\<lambda>a. card_ord (h3 ! a)) F = map (\<lambda>a. card_ord (h2 ! a)) F"
      by (rule map_cong [OF refl]) (simp add: h3_def renumber_other apart)
    ultimately show ?thesis by simp
  qed
  have untouched: "h3 ! a = h ! a" if "a \<in> set cards1" "\<not> ?P a" "\<not> ?Q a" for a
  proof -
    from that allP have "a \<notin> set targetCards" by blast
    moreover from that inF have "a \<notin> set F" by blast
    ultimately have "h3 ! a = h1 ! a"
      by (simp add: h3_def h2_def renumber_other)
    with old [OF that(1)] show ?thesis by simp
  qed
  consider (target) "c = ev_toColumnId event \<and> s = ev_toSwimlaneId event"
    | (source) "c = ev_fromColumnId event \<and> s = ev_fromSwimlaneId event"
    | (other) "\<not> (c = ev_toColumnId event \<and> s = ev_toSwimlaneId event)"
        "\<not> (c = ev_fromColumnId event \<and> s = ev_fromSwimlaneId event)"
    by blast
  then show ?thesis
  proof cases
    case target
    have "filter ?P others = []"
      unfolding others_def by (rule filter_filter_none) simp
    moreover have "filter ?P F = []"
      unfolding F_def using disj by (intro filter_filter_none) blast
    moreover have "filter ?P targetCards = targetCards"
      using allP by (simp add: filter_id_conv)
    ultimately have "filter ?P out = targetCards"
      by (simp only: out_def filter_append append_Nil append_Nil2)
    with target at_target have "groupOrders h3 out c s = map int [0..<length targetCards]"
      by (simp add: groupOrders_def g)
    then show ?thesis
      by (simp add: res denseGroup_def)
  next
    case source
    have "filter ?Q others = []"
      unfolding others_def by (rule filter_filter_none) simp
    moreover have "filter ?Q F = F"
      unfolding F_def by simp
    moreover have "filter ?Q targetCards = []"
      using allP disj by (auto simp: filter_empty_conv)
    ultimately have "filter ?Q out = F"
      by (simp only: out_def filter_append append_Nil append_Nil2)
    with source at_source have "groupOrders h3 out c s = map int [0..<length F]"
      by (simp add: groupOrders_def g)
    then show ?thesis
      by (simp add: res denseGroup_def)
  next
    case other
    then have excl: "\<not> ?P x \<and> \<not> ?Q x" if "?G x" for x
      using that by (auto simp: inGroup_def)
    then have "filter ?G others = filter ?G cards1"
      unfolding others_def by (rule filter_filter_others)
    moreover have "filter ?G F = []"
      unfolding F_def using excl by (intro filter_filter_none) blast
    moreover have "filter ?G targetCards = []"
      using allP excl by (auto simp: filter_empty_conv)
    ultimately have out_g: "filter ?G out = filter ?G cards1"
      by (simp only: out_def filter_append append_Nil append_Nil2)
    have same_g: "filter ?G cards1 = filter (inGroup h c s) cards1"
      by (rule filter_cong [OF refl]) (simp add: inGroup_def old)
    from other source have "\<not> inGroup h c s (currentCards ! i)"
      by (auto simp: inGroup_def)
    with i have all_g: "filter (inGroup h c s) cards1 = filter (inGroup h c s) currentCards"
      by (simp add: cards1_def filter_splice_remove_other)
    have "map (\<lambda>a. card_ord (h3 ! a)) (filter ?G cards1) =
        map (\<lambda>a. card_ord (h ! a)) (filter ?G cards1)"
      by (rule map_cong [OF refl]) (use excl untouched in auto)
    with out_g same_g all_g have "groupOrders h3 out c s = groupOrders h currentCards c s"
      by (simp add: groupOrders_def g)
    with dense [of c s] show ?thesis
      by (simp add: res denseGroup_def)
  qed
qed

lemma scenario_move_keeps_density:
  "denseGroup (fst (moveCard scenarioHeap [0, 1, 2] scenarioMove))
     (snd (moveCard scenarioHeap [0, 1, 2] scenarioMove)) c s"
proof (rule moveCard_keeps_density [where i = 0])
  show "\<forall>a\<in>set [0, 1, 2]. a < length scenarioHeap"
    by (simp add: scenarioHeap_def)
  show "distinct [0::nat, 1, 2]"
    by simp
  show "ev_toColumnId scenarioMove \<noteq> ev_fromColumnId scenarioMove \<or>
        ev_toSwimlaneId scenarioMove \<noteq> ev_fromSwimlaneId scenarioMove"
    by (simp add: example_defs)
  show "findIndex (\<lambda>c. card_id (scenarioHeap ! c) = card_id (scenarioHeap ! ev_card scenarioMove))
          [0, 1, 2] = Some 0"
    by (simp add: example_defs)
  show "inGroup scenarioHeap (ev_fromColumnId scenarioMove) (ev_fromSwimlaneId scenarioMove)
          ([0, 1, 2] ! 0)"
    by (simp add: example_defs inGroup_def)
  show "denseGroup scenarioHeap [0, 1, 2] c' s'" for c' s'
    by (auto simp add: example_defs denseGroup_def groupOrders_def inGroup_def
          simp del: mset_upt mset_map)
qed

section \<open>Claims\<close>

text \<open>
  C1. Group-order density after moves. The code breaks it. A \<open>moveCard\<close> whose source
  group is its target group returns the other cards of the group twice, so the orders of
  group \<open>A\<close> in the result are 0, 1, 0. And the drop of \<open>c1\<close> on column \<open>B\<close> of the
  scenario board (no swimlanes) compares the \<^verbatim>\<open>undefined\<close> swimlane of \<open>c2\<close> with the
  \<^verbatim>\<open>null\<close> source swimlane of the drag state, so the source group is not renumbered:
  \<open>c2\<close> is left alone in \<open>A\<close> with order 1.
\<close>

theorem density_broken_by_moveCard:
  "(case moveCard pairHeap [0, 1] sameGroupMove of
      (h', out) \<Rightarrow> map (\<lambda>a. card_ord (h' ! a)) (filter (inGroup h' colA Undefined) out) = [0, 1, 0]) \<and>
   (case run scenarioBoard [CardDragStart 0, ColumnDragOver columnB Undefined, ColumnDrop columnB Undefined] of
      (b', out) \<Rightarrow>
        UpdateCards [1, 2, 3] \<in> set out \<and>
        map (\<lambda>a. card_ord (b_heap b' ! a)) (filter (inGroup (b_heap b') colA Undefined) [1, 2, 3]) = [1] \<and>
        map (\<lambda>a. card_ord (b_heap b' ! a)) (filter (inGroup (b_heap b') colB Undefined) [1, 2, 3]) = [0, 1])"
  by code_simp



text \<open>
  C3. Preservation of the card ids. The code breaks it for a move within one group:
  \<open>moveCard\<close> on the cards \<open>c1\<close>, \<open>c2\<close> of group \<open>A\<close>, moving \<open>c1\<close> to index 1 of
  \<open>A\<close>, returns an array with the ids \<open>c2\<close>, \<open>c1\<close>, \<open>c2\<close>.
\<close>

theorem ids_duplicated_by_same_group_move:
  "map (\<lambda>a. card_id (pairHeap ! a)) [0, 1] = [IdStr ''c1'', IdStr ''c2''] \<and>
   (case moveCard pairHeap [0, 1] sameGroupMove of
      (h', out) \<Rightarrow> map (\<lambda>a. card_id (h' ! a)) out = [IdStr ''c2'', IdStr ''c1'', IdStr ''c2''])"
  by code_simp

text \<open>
  C4. Idempotence of self-moves. The code breaks it. On a board without swimlanes,
  dragging \<open>c1\<close> (index 0 of \<open>A\<close>) and dropping it on its own column \<open>A\<close> emits a
  \<^verbatim>\<open>card-moved\<close> event to index 2 and a \<^verbatim>\<open>board-change\<close> event, and the cards emitted
  are \<open>c2\<close> (A, 0), \<open>c1\<close> (A, 1). And \<open>moveCard\<close> called with the card's own group and
  index returns three cards for the two of the input.
\<close>

theorem self_drop_moves_card:
  "(case run pairBoard [CardDragStart 0, ColumnDragOver columnA Undefined, ColumnDrop columnA Undefined] of
      (b', out) \<Rightarrow>
        out =
          [DragStart CardDrag (IdStr ''c1'') (Id colA),
           UpdateCards [1, 2],
           CardMoved \<lparr>ev_card = 0, ev_fromColumnId = colA, ev_toColumnId = colA, ev_fromIndex = 0,
                      ev_toIndex = 2, ev_fromSwimlaneId = Null, ev_toSwimlaneId = Undefined\<rparr>,
           BoardChange [columnA] [1, 2] None,
           DragEnd CardDrag (IdStr ''c1'') True] \<and>
        map ((!) (b_heap b')) [1, 2] = [mkCard (IdStr ''c2'') colA 0, mkCard (IdStr ''c1'') colA 1]) \<and>
   map ((!) pairHeap) [0, 1] = [mkCard (IdStr ''c1'') colA 0, mkCard (IdStr ''c2'') colA 1] \<and>
   (case moveCard pairHeap [0, 1] selfMove of
      (h', out) \<Rightarrow>
        map ((!) h') out =
          [mkCard (IdStr ''c1'') colA 0, mkCard (IdStr ''c2'') colA 1, mkCard (IdStr ''c2'') colA 1])"
  by code_simp

text \<open>
  C5 (amended). A drop whose dragged card id is in no card of the current collection
  resets the drag state, leaves the store and the collections as they are and emits
  nothing: no \<^verbatim>\<open>card-moved\<close>, no \<^verbatim>\<open>board-change\<close> and no \<^verbatim>\<open>drag-end\<close> event, and
  the \<^verbatim>\<open>dragend\<close> that follows the drop emits none either. \<open>moveCard\<close>, called with a
  card whose id is in no card of the collection, returns the store and the array
  unchanged.
\<close>

theorem stale_drop_is_silent_reset:
  assumes "draggedId (b_dragState b) = Id k"
    and "getCardById (b_heap b) (b_cards b) k = None"
  shows "handleColumnDrop b columnId swimlaneId = (b\<lparr>b_dragState := resetDragState\<rparr>, []) \<and>
         snd (handleCardDragEnd (fst (handleColumnDrop b columnId swimlaneId))) = [] \<and>
         (\<forall>event. card_id (b_heap b ! ev_card event) = k \<longrightarrow>
            moveCard (b_heap b) (b_cards b) event = (b_heap b, b_cards b))"
proof -
  from assms have drop: "handleColumnDrop b columnId swimlaneId = (b\<lparr>b_dragState := resetDragState\<rparr>, [])"
    by (auto simp: handleColumnDrop_def handleDrop_def Let_def split: option.splits OptId.splits)
  have dragend: "snd (handleCardDragEnd (b\<lparr>b_dragState := resetDragState\<rparr>)) = []"
    by (simp add: handleCardDragEnd_def handleDragEnd_def resetDragState_def)
  from assms(2) have absent: "findIndex (\<lambda>c. card_id (b_heap b ! c) = k) (b_cards b) = None"
    by (simp add: getCardById_def findIndex_None)
  have resolver: "moveCard (b_heap b) (b_cards b) event = (b_heap b, b_cards b)"
    if "card_id (b_heap b ! ev_card event) = k" for event
    using that absent by (simp add: moveCard_def)
  from drop dragend resolver show ?thesis by simp
qed

theorem stale_drop_is_silent_reset_witness:
  "handleColumnDrop staleBoard colB Undefined = (staleBoard\<lparr>b_dragState := resetDragState\<rparr>, []) \<and>
   snd (handleCardDragEnd (fst (handleColumnDrop staleBoard colB Undefined))) = [] \<and>
   moveCard (b_heap staleBoard) (b_cards staleBoard) staleMove = (b_heap staleBoard, b_cards staleBoard)"
proof -
  have p1: "draggedId (b_dragState staleBoard) = Id (IdStr ''gone'')"
    by (simp add: example_defs)
  have p2: "getCardById (b_heap staleBoard) (b_cards staleBoard) (IdStr ''gone'') = None"
    by (simp add: example_defs getCardById_def)
  have p3: "card_id (b_heap staleBoard ! ev_card staleMove) = IdStr ''gone''"
    by (simp add: example_defs)
  from stale_drop_is_silent_reset [OF p1 p2, of colB Undefined] p3 show ?thesis
    by blast
qed

text \<open>
  C5, as stated, fails: on the scenario board, while a card with the id \<open>gone\<close> is
  dragged that no card of the collection has, the drop on column \<open>B\<close> followed by the
  \<^verbatim>\<open>dragend\<close> emits no event, so no \<^verbatim>\<open>drag-end\<close> event with success = true.
\<close>

theorem stale_drop_counterexample:
  "draggedId (b_dragState staleBoard) = Id (IdStr ''gone'') \<and>
   getCardById (b_heap staleBoard) (b_cards staleBoard) (IdStr ''gone'') = None \<and>
   snd (run staleBoard [ColumnDrop columnB Undefined, CardDragEnd]) = []"
  by code_simp

text \<open>
  C6. Drop on a column that refuses cards. The code breaks the claim for a card whose id
  is falsy: on a board whose card has the id 0, the gesture that drags the card, hovers
  and drops on the refusing column \<open>B\<close> and ends emits the \<^verbatim>\<open>drag-start\<close> event only;
  no \<^verbatim>\<open>drag-end\<close> event is emitted.
\<close>

theorem rejected_drop_of_card_zero:
  "snd (run zeroBoard [CardDragStart 0, ColumnDragOver lockedB Undefined, ColumnDrop lockedB Undefined, CardDragEnd]) =
     [DragStart CardDrag (IdNum 0) (Id colA)]"
  by code_simp

text \<open>
  C7 (amended). \<open>isColumnOverLimit\<close> is true if and only if a column with that id
  exists and the first such column has a \<open>wipLimit\<close> that is set and is not 0 and that
  the number of cards with that \<open>columnId\<close> strictly exceeds. A limit of 0 counts as no
  limit.
\<close>

theorem over_limit_iff:
  "isColumnOverLimit currentColumns h currentCards columnId \<longleftrightarrow>
     (\<exists>column w. find (\<lambda>c. col_id c = columnId) currentColumns = Some column \<and>
        col_wipLimit column = Some w \<and> w \<noteq> 0 \<and>
        w < int (length (filter (\<lambda>a. card_columnId (h ! a) = columnId) currentCards)))"
  by (auto simp: isColumnOverLimit_def getCardCount_def getCardsForColumn_def split: option.splits)

theorem over_limit_iff_witness:
  "isColumnOverLimit [oneLimitA, columnB] scenarioHeap [0, 1, 2] colA \<and>
   \<not> isColumnOverLimit [oneLimitA, columnB] scenarioHeap [0, 1, 2] colB"
proof -
  have a: "\<exists>column w. find (\<lambda>c. col_id c = colA) [oneLimitA, columnB] = Some column \<and>
        col_wipLimit column = Some w \<and> w \<noteq> 0 \<and>
        w < int (length (filter (\<lambda>a. card_columnId (scenarioHeap ! a) = colA) [0, 1, 2]))"
    by (rule exI [of _ oneLimitA], rule exI [of _ 1]) (simp add: example_defs)
  have b: "\<not> (\<exists>column w. find (\<lambda>c. col_id c = colB) [oneLimitA, columnB] = Some column \<and>
        col_wipLimit column = Some w \<and> w \<noteq> 0 \<and>
        w < int (length (filter (\<lambda>a. card_columnId (scenarioHeap ! a) = colB) [0, 1, 2])))"
    by (simp add: example_defs)
  from b have nb: "\<not> isColumnOverLimit [oneLimitA, columnB] scenarioHeap [0, 1, 2] colB"
    by (simp add: over_limit_iff)
  show ?thesis
    by (rule conjI [OF iffD2 [OF over_limit_iff a] nb])
qed

text \<open>
  C7, as stated, fails for a limit of 0: column \<open>A\<close> exists, its \<open>wipLimit\<close> is set to
  0 and two cards are in it, more than the limit, and \<open>isColumnOverLimit\<close> is false.
\<close>

theorem over_limit_zero_counterexample:
  "find (\<lambda>c. col_id c = colA) [zeroLimitA, columnB] = Some zeroLimitA \<and>
   col_wipLimit zeroLimitA = Some 0 \<and>
   0 < int (length (filter (\<lambda>a. card_columnId (scenarioHeap ! a) = colA) [0, 1, 2])) \<and>
   \<not> isColumnOverLimit [zeroLimitA, columnB] scenarioHeap [0, 1, 2] colA"
  by (simp add: example_defs isColumnOverLimit_def)

text \<open>
  C8 (amended). The drag state holds one dragged subject. A \<open>startCardDrag\<close> or
  \<open>startColumnDrag\<close> is refused, leaving the drag state as it is and invoking no
  callback, only when drag is disabled for that kind of subject or the subject is marked
  \<^verbatim>\<open>draggable: false\<close>. Otherwise it is accepted whatever the drag state is, also while a
  gesture is active: its result is the one it has from the idle state, the drag state of
  the new subject.
\<close>

theorem beginDrag_ignores_active_gesture:
  "(isDragEnabled options \<and> card_draggable kcard \<noteq> Some False \<longrightarrow>
      startCardDrag options kcard st = startCardDrag options kcard resetDragState \<and>
      isDragging (fst (startCardDrag options kcard st)) \<and>
      dragType (fst (startCardDrag options kcard st)) = Some CardDrag \<and>
      draggedId (fst (startCardDrag options kcard st)) = Id (card_id kcard)) \<and>
   (\<not> (isDragEnabled options \<and> card_draggable kcard \<noteq> Some False) \<longrightarrow>
      startCardDrag options kcard st = (st, [])) \<and>
   (isColumnDragEnabled options \<and> col_draggable column \<noteq> Some False \<longrightarrow>
      startColumnDrag options column st = startColumnDrag options column resetDragState \<and>
      isDragging (fst (startColumnDrag options column st)) \<and>
      dragType (fst (startColumnDrag options column st)) = Some ColumnDrag \<and>
      draggedId (fst (startColumnDrag options column st)) = Id (col_id column)) \<and>
   (\<not> (isColumnDragEnabled options \<and> col_draggable column \<noteq> Some False) \<longrightarrow>
      startColumnDrag options column st = (st, []))"
  by (simp add: startCardDrag_def startColumnDrag_def)

theorem beginDrag_ignores_active_gesture_witness:
  "isDragging draggingC1 \<and>
   draggedId draggingC1 = Id (IdStr ''c1'') \<and>
   draggedId (fst (startCardDrag noDragOptions c2 draggingC1)) = Id (IdStr ''c2'') \<and>
   draggedId (fst (startColumnDrag noDragOptions columnB draggingC1)) = Id colB \<and>
   startCardDrag \<lparr>enableDragDrop = Some False, enableColumnDrag = None\<rparr> c2 draggingC1 = (draggingC1, [])"
proof -
  have en: "isDragEnabled noDragOptions \<and> card_draggable c2 \<noteq> Some False"
    by (simp add: example_defs isDragEnabled_def)
  have cen: "isColumnDragEnabled noDragOptions \<and> col_draggable columnB \<noteq> Some False"
    by (simp add: example_defs isColumnDragEnabled_def)
  have dis: "\<not> (isDragEnabled \<lparr>enableDragDrop = Some False, enableColumnDrag = None\<rparr> \<and>
                card_draggable c2 \<noteq> Some False)"
    by (simp add: isDragEnabled_def)
  have ids: "card_id c2 = IdStr ''c2''" "col_id columnB = colB"
    by (simp_all add: example_defs)
  have st: "isDragging draggingC1" "draggedId draggingC1 = Id (IdStr ''c1'')"
    by (simp_all add: example_defs)
  from beginDrag_ignores_active_gesture [of noDragOptions c2 draggingC1 columnB] en cen
  have a: "draggedId (fst (startCardDrag noDragOptions c2 draggingC1)) = Id (card_id c2)"
    and c: "draggedId (fst (startColumnDrag noDragOptions columnB draggingC1)) = Id (col_id columnB)"
    by blast+
  from beginDrag_ignores_active_gesture
         [of "\<lparr>enableDragDrop = Some False, enableColumnDrag = None\<rparr>" c2 draggingC1 columnB] dis
  have r: "startCardDrag \<lparr>enableDragDrop = Some False, enableColumnDrag = None\<rparr> c2 draggingC1 = (draggingC1, [])"
    by blast
  from st a c r ids show ?thesis by simp
qed

text \<open>
  C8, as stated, fails: while \<open>c1\<close> is dragged, \<open>startCardDrag\<close> for \<open>c2\<close> is not
  refused; it replaces the drag state, whose dragged id becomes \<open>c2\<close>.
\<close>

theorem second_beginDrag_counterexample:
  "isDragging draggingC1 \<and>
   fst (startCardDrag noDragOptions c2 draggingC1) \<noteq> draggingC1 \<and>
   draggedId (fst (startCardDrag noDragOptions c2 draggingC1)) = Id (IdStr ''c2'') \<and>
   snd (startCardDrag noDragOptions c2 draggingC1) = [OnDragStart CardDrag (IdStr ''c2'') (Id colA)]"
  by (simp add: example_defs startCardDrag_def isDragEnabled_def orNull_def)

text \<open>
  C9. No in-place mutation. The code breaks it: \<open>moveCard\<close> renumbers the cards of the
  source and of the target group by assignment to the objects of the input array. After
  the move of the scenario, the input objects \<open>c2\<close> and \<open>c3\<close> (references 1 and 2 of the
  input array) carry the orders 0 and 1; before, they carried 1 and 0.
\<close>

theorem moveCard_mutates_input_cards:
  "map (\<lambda>a. card_ord (scenarioHeap ! a)) [0, 1, 2] = [0, 1, 0] \<and>
   map (\<lambda>a. card_ord (fst (moveCard scenarioHeap [0, 1, 2] scenarioMove) ! a)) [0, 1, 2] = [0, 0, 1]"
  by code_simp




end
